theory Spec2Isabelle
  imports Main
begin

section \<open>Data model\<close>

text \<open>
  The \<^verbatim>\<open>UrlEntry\<close> interface. The field \<^verbatim>\<open>id\<close> is called \<open>idE\<close> here
  (\<open>id\<close> is the identity function of HOL). \<^verbatim>\<open>createdAt\<close> and \<^verbatim>\<open>expiresAt\<close> hold
  ISO-8601 strings in the source, written by \<^verbatim>\<open>toISOString\<close> and read back by
  \<^verbatim>\<open>new Date(...)\<close>; they are represented by the millisecond time value that the string
  denotes. \<^verbatim>\<open>clicks\<close> is a JavaScript number that starts at 0 and is only ever
  incremented; it is a natural number here (exact below \<open>2^53\<close>).
\<close>

record UrlEntry =
  idE :: string
  longUrl :: string
  shortUrl :: string
  shortCode :: string
  createdAt :: int
  expiresAt :: int
  clicks :: nat
  isValid :: bool
  customShortCode :: "string option"

record CreateUrlRequest =
  req_longUrl :: string
  req_customShortCode :: "string option"
  req_validityMinutes :: "int option"

record CreateUrlResponse =
  success :: bool
  urlEntry :: "UrlEntry option"
  error :: "string option"

datatype UrlValidationResult = Valid | Invalid string

subsection \<open>The insertion-ordered \<^verbatim>\<open>Map<string, UrlEntry>\<close>\<close>

text \<open>
  A JavaScript \<^verbatim>\<open>Map\<close> iterates in insertion order, and \<^verbatim>\<open>set\<close> on a key that is
  present replaces the value in place. \<^verbatim>\<open>urlEntries\<close> is iterated
  (\<^verbatim>\<open>values()\<close>, \<^verbatim>\<open>forEach\<close>), so it is an association list.
\<close>

primrec mapSet :: "'k \<Rightarrow> 'v \<Rightarrow> ('k \<times> 'v) list \<Rightarrow> ('k \<times> 'v) list" where
  "mapSet k v [] = [(k, v)]"
| "mapSet k v (p # ps) = (if fst p = k then (k, v) # ps else p # mapSet k v ps)"

primrec mapGet :: "('k \<times> 'v) list \<Rightarrow> 'k \<Rightarrow> 'v option" where
  "mapGet [] k = None"
| "mapGet (p # ps) k = (if fst p = k then Some (snd p) else mapGet ps k)"

primrec mapDelete :: "'k \<Rightarrow> ('k \<times> 'v) list \<Rightarrow> ('k \<times> 'v) list" where
  "mapDelete k [] = []"
| "mapDelete k (p # ps) = (if fst p = k then ps else p # mapDelete k ps)"

definition mapValues :: "('k \<times> 'v) list \<Rightarrow> 'v list" where
  "mapValues m = map snd m"

subsection \<open>The durable store\<close>

text \<open>
  \<^verbatim>\<open>localStorage\<close> with the two items the service uses. An item is represented by the
  value its JSON text denotes (\<^verbatim>\<open>JSON.stringify\<close> and \<^verbatim>\<open>JSON.parse\<close> are the
  platform's and inverse to each other on these records), so the store holds what the
  service wrote or nothing: text that does not parse is outside the model.
  \<^verbatim>\<open>setItem\<close> may throw (quota exceeded, storage disabled), which \<^verbatim>\<open>saveToStorage\<close>
  catches: \<open>refuses\<close> says for which keys it does.
\<close>

record localStorage =
  item_urlEntries :: "UrlEntry list option"
  item_shortCodeMappings :: "(string \<rightharpoonup> string) option"
  refuses :: "string \<Rightarrow> bool"

text \<open>
  The state of the singleton \<^verbatim>\<open>UrlService\<close> together with the durable store it writes
  to. \<^verbatim>\<open>shortCodeToId\<close> is never iterated in an order-sensitive way, so it is a map.
  \<open>saveCalls\<close> counts the calls of \<^verbatim>\<open>saveToStorage\<close>, and \<open>swept\<close> lists the entry
  objects that \<^verbatim>\<open>cleanupExpiredUrls\<close> has taken out of \<^verbatim>\<open>urlEntries\<close>, in the state the
  sweep left them: the sweep mutates the objects in place before it drops them, and they
  live on in whatever still holds them (the array \<^verbatim>\<open>getAllUrls\<close> gave out, the response of
  \<^verbatim>\<open>createShortUrl\<close>). Both are instrumentation, not fields of the source. Logging is left
  out: the logger keeps its own state and never touches the service's.
\<close>

record UrlService =
  urlEntries :: "(string \<times> UrlEntry) list"
  shortCodeToId :: "string \<rightharpoonup> string"
  storage :: localStorage
  saveCalls :: nat
  swept :: "UrlEntry list"

section \<open>Persistence\<close>

definition saveToStorage :: "UrlService \<Rightarrow> UrlService" where
  "saveToStorage s =
     (let urls = mapValues (urlEntries s);
          mappings = shortCodeToId s;
          ls = storage s;
          ls' = (if refuses ls ''urlEntries'' then ls
                 else let ls1 = ls\<lparr>item_urlEntries := Some urls\<rparr>
                      in if refuses ls ''shortCodeMappings'' then ls1
                         else ls1\<lparr>item_shortCodeMappings := Some mappings\<rparr>)
      in s\<lparr>storage := ls', saveCalls := Suc (saveCalls s)\<rparr>)"

fun loadUrls :: "UrlEntry list \<Rightarrow> UrlService \<Rightarrow> UrlService" where
  "loadUrls [] s = s"
| "loadUrls (url # urls) s =
     loadUrls urls (s\<lparr>urlEntries := mapSet (idE url) url (urlEntries s),
                     shortCodeToId := (shortCodeToId s)(shortCode url \<mapsto> idE url)\<rparr>)"

definition loadFromStorage :: "UrlService \<Rightarrow> UrlService" where
  "loadFromStorage s =
     (let s1 = (case item_urlEntries (storage s) of
                  None \<Rightarrow> s
                | Some urls \<Rightarrow> loadUrls urls s)
      in case item_shortCodeMappings (storage s) of
           None \<Rightarrow> s1
         | Some mappings \<Rightarrow> s1\<lparr>shortCodeToId := shortCodeToId s1 ++ mappings\<rparr>)"

text \<open>The constructor: empty maps, then \<^verbatim>\<open>loadFromStorage\<close>.\<close>

definition newService :: "localStorage \<Rightarrow> UrlService" where
  "newService ls =
     loadFromStorage \<lparr>urlEntries = [], shortCodeToId = Map.empty, storage = ls, saveCalls = 0,
       swept = []\<rparr>"

section \<open>Lookup, clicks, deletion, sweep\<close>

text \<open>
  \<^verbatim>\<open>getUrlByShortCode\<close>; \<open>now\<close> is the value of \<^verbatim>\<open>new Date()\<close>. The source returns the
  object held by the map and mutates it in place; every \<^verbatim>\<open>set\<close> of the source stores an
  object under its own \<^verbatim>\<open>id\<close>, so an object is held under one key and the mutation is
  the update of that slot. \<^verbatim>\<open>!urlId\<close> is also true of the empty string.
\<close>

definition getUrlByShortCode :: "int \<Rightarrow> string \<Rightarrow> UrlService \<Rightarrow> UrlEntry option \<times> UrlService" where
  "getUrlByShortCode now code s =
     (case shortCodeToId s code of
        None \<Rightarrow> (None, s)
      | Some urlId \<Rightarrow>
          if urlId = [] then (None, s)
          else (case mapGet (urlEntries s) urlId of
                  None \<Rightarrow> (None, s)
                | Some e \<Rightarrow>
                    if now > expiresAt e then
                      (let e' = e\<lparr>isValid := False\<rparr>;
                           m1 = mapSet urlId e' (urlEntries s);
                           m2 = mapSet (idE e') e' m1
                       in (None, saveToStorage (s\<lparr>urlEntries := m2\<rparr>)))
                    else (Some e, s)))"

text \<open>
  \<^verbatim>\<open>incrementClicks\<close>: the object the lookup returns is the one \<^verbatim>\<open>urlEntries\<close> holds
  under the id the code leads to (a successful lookup changes nothing), so
  \<^verbatim>\<open>urlEntry.clicks++\<close> is written to that slot before \<^verbatim>\<open>set\<close> stores the object under
  its own id.
\<close>

definition incrementClicks :: "int \<Rightarrow> string \<Rightarrow> UrlService \<Rightarrow> bool \<times> UrlService" where
  "incrementClicks now code s =
     (case getUrlByShortCode now code s of
        (None, s1) \<Rightarrow> (False, s1)
      | (Some e, s1) \<Rightarrow>
          (let e' = e\<lparr>clicks := Suc (clicks e)\<rparr>;
               m1 = (case shortCodeToId s1 code of
                       None \<Rightarrow> urlEntries s1
                     | Some urlId \<Rightarrow> mapSet urlId e' (urlEntries s1));
               m2 = mapSet (idE e') e' m1
           in (True, saveToStorage (s1\<lparr>urlEntries := m2\<rparr>))))"

definition deleteUrl :: "string \<Rightarrow> UrlService \<Rightarrow> bool \<times> UrlService" where
  "deleteUrl i s =
     (case mapGet (urlEntries s) i of
        None \<Rightarrow> (False, s)
      | Some e \<Rightarrow>
          (True, saveToStorage (s\<lparr>urlEntries := mapDelete i (urlEntries s),
                                   shortCodeToId := (shortCodeToId s)(shortCode e := None)\<rparr>)))"

text \<open>
  \<^verbatim>\<open>cleanupExpiredUrls\<close>: the first \<^verbatim>\<open>forEach\<close> collects the keys of the expired entries
  and marks them, the second looks each key up again and removes it from both maps; the
  object it found there goes to \<open>swept\<close>.
\<close>

definition expiredIds :: "int \<Rightarrow> (string \<times> UrlEntry) list \<Rightarrow> string list" where
  "expiredIds now m = map fst (filter (\<lambda>p. expiresAt (snd p) < now) m)"

definition markExpired :: "int \<Rightarrow> (string \<times> UrlEntry) list \<Rightarrow> (string \<times> UrlEntry) list" where
  "markExpired now m =
     map (\<lambda>p. if expiresAt (snd p) < now then (fst p, (snd p)\<lparr>isValid := False\<rparr>) else p) m"

fun removeExpired :: "string list \<Rightarrow> UrlService \<Rightarrow> UrlService" where
  "removeExpired [] s = s"
| "removeExpired (i # ids) s =
     (let idx = (case mapGet (urlEntries s) i of
                   None \<Rightarrow> shortCodeToId s
                 | Some e \<Rightarrow> (shortCodeToId s)(shortCode e := None));
          dropped = (case mapGet (urlEntries s) i of
                       None \<Rightarrow> swept s
                     | Some e \<Rightarrow> swept s @ [e])
      in removeExpired ids (s\<lparr>urlEntries := mapDelete i (urlEntries s), shortCodeToId := idx,
                                swept := dropped\<rparr>))"

definition cleanupExpiredUrls :: "int \<Rightarrow> UrlService \<Rightarrow> nat \<times> UrlService" where
  "cleanupExpiredUrls now s =
     (let expiredUrls = expiredIds now (urlEntries s);
          s1 = s\<lparr>urlEntries := markExpired now (urlEntries s)\<rparr>;
          s2 = removeExpired expiredUrls s1;
          s3 = (if length expiredUrls > 0 then saveToStorage s2 else s2)
      in (length expiredUrls, s3))"

section \<open>Creation\<close>

text \<open>
  What the platform supplies to one call of \<^verbatim>\<open>createShortUrl\<close>:
  \<open>protocolOf url\<close> is the \<^verbatim>\<open>protocol\<close> of \<^verbatim>\<open>new URL(url)\<close>, or \<open>None\<close> when the
  constructor throws; \<open>origin\<close> is \<^verbatim>\<open>window.location.origin\<close>; \<open>random k\<close> is the
  value of \<^verbatim>\<open>Math.floor(Math.random() * chars.length)\<close> at the \<open>k\<close>-th draw of the call;
  \<open>newDate\<close> and \<open>dateNow\<close> are the clock readings of \<^verbatim>\<open>new Date()\<close> and of
  \<^verbatim>\<open>Date.now()\<close>, in milliseconds. \<^verbatim>\<open>validityMinutes\<close> is a whole number of minutes.
\<close>

record Env =
  protocolOf :: "string \<Rightarrow> string option"
  origin :: string
  random :: "nat \<Rightarrow> nat"
  newDate :: int
  dateNow :: int

text \<open>
  A call returns, throws, or never returns (the \<^verbatim>\<open>do ... while\<close> of
  \<^verbatim>\<open>generateShortCode\<close> has no bound).
\<close>

datatype 'a outcome = Returns 'a | Throws string | Diverges

definition chars :: string where
  "chars = ''ABCDEFGHIJKLMNOPQRSTUVWXYZabcdefghijklmnopqrstuvwxyz0123456789''"

text \<open>\<^verbatim>\<open>String.prototype.charAt\<close>: the empty string when the index is out of range.\<close>

definition charAt :: "string \<Rightarrow> nat \<Rightarrow> string" where
  "charAt str i = (if i < length str then [str ! i] else [])"

text \<open>One pass of the inner \<^verbatim>\<open>for\<close> loop, reading the draws \<open>pos, ..., pos + 7\<close>.\<close>

definition drawCode :: "(nat \<Rightarrow> nat) \<Rightarrow> nat \<Rightarrow> string" where
  "drawCode rnd pos = concat (map (\<lambda>i. charAt chars (rnd (pos + i))) [0..<8])"

partial_function (option) generateShortCode ::
  "(nat \<Rightarrow> nat) \<Rightarrow> nat \<Rightarrow> (string \<rightharpoonup> string) \<Rightarrow> string option" where
  "generateShortCode rnd pos idx =
     (let shortCode = drawCode rnd pos
      in if idx shortCode \<noteq> None then generateShortCode rnd (pos + 8) idx
         else Some shortCode)"

text \<open>The character class \<^verbatim>\<open>[a-zA-Z0-9]\<close>.\<close>

definition alnum :: "char \<Rightarrow> bool" where
  "alnum c = (c \<in> set ''abcdefghijklmnopqrstuvwxyzABCDEFGHIJKLMNOPQRSTUVWXYZ0123456789'')"

definition validateShortCode :: "UrlService \<Rightarrow> string \<Rightarrow> UrlValidationResult" where
  "validateShortCode s code =
     (if code = [] \<or> length code < 3 \<or> length code > 20 then
        Invalid ''Shortcode must be between 3 and 20 characters''
      else if \<not> list_all alnum code then
        Invalid ''Shortcode must contain only letters and numbers''
      else if shortCodeToId s code \<noteq> None then
        Invalid ''Shortcode already exists''
      else Valid)"

definition validateLongUrl :: "Env \<Rightarrow> string \<Rightarrow> UrlValidationResult" where
  "validateLongUrl env url =
     (case protocolOf env url of
        None \<Rightarrow> Invalid ''Invalid URL format''
      | Some p \<Rightarrow>
          if p \<noteq> ''http:'' \<and> p \<noteq> ''https:'' then
            Invalid ''URL must use HTTP or HTTPS protocol''
          else Valid)"

text \<open>\<^verbatim>\<open>Number.prototype.toString\<close> on an integer: its decimal numeral.\<close>

fun natToString :: "nat \<Rightarrow> string" where
  "natToString n =
     (if n < 10 then [''0123456789'' ! n]
      else natToString (n div 10) @ [''0123456789'' ! (n mod 10)])"

declare natToString.simps [simp del]

definition toString :: "int \<Rightarrow> string" where
  "toString i = (if i < 0 then CHR ''-'' # natToString (nat (- i)) else natToString (nat i))"

text \<open>
  A \<^verbatim>\<open>Date\<close> holds a time value of at most \<open>8.64 * 10^15\<close> ms in magnitude; beyond that it
  is an Invalid Date, on which \<^verbatim>\<open>toISOString\<close> throws a \<^verbatim>\<open>RangeError\<close>.
\<close>

definition validTime :: "int \<Rightarrow> bool" where
  "validTime t = (\<bar>t\<bar> \<le> 8640000000000000)"

definition failure :: "string \<Rightarrow> CreateUrlResponse" where
  "failure err = \<lparr>success = False, urlEntry = None, error = Some err\<rparr>"

text \<open>
  The second half of \<^verbatim>\<open>createShortUrl\<close>, from the validity period on.
  \<^verbatim>\<open>request.validityMinutes || 30\<close> takes 30 for an absent value and for 0.
\<close>

definition storeEntry :: "Env \<Rightarrow> CreateUrlRequest \<Rightarrow> string \<Rightarrow> UrlService \<Rightarrow>
    (CreateUrlResponse \<times> UrlService) outcome" where
  "storeEntry env request code s =
     (let validityMinutes = (case req_validityMinutes request of
                               None \<Rightarrow> 30
                             | Some v \<Rightarrow> if v = 0 then 30 else v);
          created = newDate env;
          expires = created + validityMinutes * 60 * 1000
      in if \<not> validTime expires then Throws ''RangeError''
         else
           let entry = \<lparr>idE = toString (dateNow env),
                        longUrl = req_longUrl request,
                        shortUrl = origin env @ ''/'' @ code,
                        shortCode = code,
                        createdAt = created,
                        expiresAt = expires,
                        clicks = 0,
                        isValid = True,
                        customShortCode = req_customShortCode request\<rparr>;
               s1 = s\<lparr>urlEntries := mapSet (idE entry) entry (urlEntries s),
                      shortCodeToId := (shortCodeToId s)(code \<mapsto> idE entry)\<rparr>
           in Returns (\<lparr>success = True, urlEntry = Some entry, error = None\<rparr>,
                       saveToStorage s1))"

definition generated :: "Env \<Rightarrow> CreateUrlRequest \<Rightarrow> UrlService \<Rightarrow>
    (CreateUrlResponse \<times> UrlService) outcome" where
  "generated env request s =
     (case generateShortCode (random env) 0 (shortCodeToId s) of
        None \<Rightarrow> Diverges
      | Some code \<Rightarrow> storeEntry env request code s)"

definition createShortUrl :: "Env \<Rightarrow> CreateUrlRequest \<Rightarrow> UrlService \<Rightarrow>
    (CreateUrlResponse \<times> UrlService) outcome" where
  "createShortUrl env request s =
     (case validateLongUrl env (req_longUrl request) of
        Invalid err \<Rightarrow> Returns (failure err, s)
      | Valid \<Rightarrow>
          (case req_customShortCode request of
             None \<Rightarrow> generated env request s
           | Some custom \<Rightarrow>
               if custom = [] then generated env request s
               else (case validateShortCode s custom of
                       Invalid err \<Rightarrow> Returns (failure err, s)
                     | Valid \<Rightarrow> storeEntry env request custom s)))"

section \<open>Sequences of calls\<close>

text \<open>
  \<^verbatim>\<open>incrementClicks\<close> called once for each clock reading of the list, each call on the
  state the previous one left.
\<close>

fun repeatIncrementClicks :: "int list \<Rightarrow> string \<Rightarrow> UrlService \<Rightarrow> bool list \<times> UrlService" where
  "repeatIncrementClicks [] code s = ([], s)"
| "repeatIncrementClicks (now # nows) code s =
     (case incrementClicks now code s of
        (b, s1) \<Rightarrow> (case repeatIncrementClicks nows code s1 of (bs, s2) \<Rightarrow> (b # bs, s2)))"

text \<open>
  The public operations as data, and the state a sequence of them leads to. A creation
  that throws leaves the state as it was (\<^verbatim>\<open>toISOString\<close> throws before the maps are
  touched); one that never returns leads nowhere. \<open>Restart\<close> is a page reload: a new
  service built from the durable store. \<open>Quota\<close> changes which writes the durable
  store refuses.
\<close>

datatype call =
    Create Env CreateUrlRequest
  | Resolve int string
  | Click int string
  | Delete string
  | Sweep int
  | Restart
  | Quota "string \<Rightarrow> bool"

fun step :: "call \<Rightarrow> UrlService \<Rightarrow> UrlService option" where
  "step (Create env request) s =
     (case createShortUrl env request s of
        Returns (resp, s') \<Rightarrow> Some s'
      | Throws x \<Rightarrow> Some s
      | Diverges \<Rightarrow> None)"
| "step (Resolve now code) s = Some (snd (getUrlByShortCode now code s))"
| "step (Click now code) s = Some (snd (incrementClicks now code s))"
| "step (Delete i) s = Some (snd (deleteUrl i s))"
| "step (Sweep now) s = Some (snd (cleanupExpiredUrls now s))"
| "step Restart s = Some (newService (storage s))"
| "step (Quota r) s = Some (s\<lparr>storage := (storage s)\<lparr>refuses := r\<rparr>\<rparr>)"

fun run :: "call list \<Rightarrow> UrlService \<Rightarrow> UrlService option" where
  "run [] s = Some s"
| "run (c # cs) s = (case step c s of None \<Rightarrow> None | Some s' \<Rightarrow> run cs s')"

fun nonNegativeValidity :: "call \<Rightarrow> bool" where
  "nonNegativeValidity (Create env request) =
     (case req_validityMinutes request of None \<Rightarrow> True | Some v \<Rightarrow> 0 \<le> v)"
| "nonNegativeValidity c = True"

text \<open>What a call of \<^verbatim>\<open>createShortUrl\<close> gave back, when it returned.\<close>

definition returnedEntry :: "(CreateUrlResponse \<times> UrlService) outcome \<Rightarrow> UrlEntry option" where
  "returnedEntry r =
     (case r of Returns (resp, s') \<Rightarrow> (if success resp then urlEntry resp else None)
      | Throws x \<Rightarrow> None | Diverges \<Rightarrow> None)"

definition stateAfter :: "(CreateUrlResponse \<times> UrlService) outcome \<Rightarrow> UrlService option" where
  "stateAfter r = (case r of Returns (resp, s') \<Rightarrow> Some s' | Throws x \<Rightarrow> None | Diverges \<Rightarrow> None)"

section \<open>Properties of a store\<close>

text \<open>
  \<open>storedUnderOwnId\<close>: the keys of \<^verbatim>\<open>urlEntries\<close> are distinct, as the keys of a
  \<^verbatim>\<open>Map\<close> are, and every entry is held under its own \<^verbatim>\<open>id\<close>.
  \<open>expiryAfterCreation\<close>: every entry, in memory and in the durable store, expires
  after it was created.
\<close>

definition storedUnderOwnId :: "(string \<times> UrlEntry) list \<Rightarrow> bool" where
  "storedUnderOwnId m = (distinct (map fst m) \<and> list_all (\<lambda>p. idE (snd p) = fst p) m)"

definition expiryAfterCreation :: "UrlService \<Rightarrow> bool" where
  "expiryAfterCreation s =
     (list_all (\<lambda>p. createdAt (snd p) < expiresAt (snd p)) (urlEntries s) \<and>
      (case item_urlEntries (storage s) of
         None \<Rightarrow> True
       | Some urls \<Rightarrow> list_all (\<lambda>e. createdAt e < expiresAt e) urls))"

section \<open>Sample data\<close>

text \<open>
  A fresh service on an empty durable store that accepts every write, one creation at
  clock reading 1000 with the custom code \<^verbatim>\<open>abc\<close> and one minute of validity, and the
  state that creation leaves.
\<close>

definition emptyStorage :: localStorage where
  "emptyStorage = \<lparr>item_urlEntries = None, item_shortCodeMappings = None, refuses = (\<lambda>k. False)\<rparr>"

definition demoEnv :: Env where
  "demoEnv = \<lparr>protocolOf = (\<lambda>u. if take 8 u = ''https://'' then Some ''https:'' else None),
               origin = ''http://localhost:3000'', random = (\<lambda>k. k mod 62),
               newDate = 1000, dateNow = 1000\<rparr>"

definition demoRequest :: CreateUrlRequest where
  "demoRequest = \<lparr>req_longUrl = ''https://example.com/page'',
                   req_customShortCode = Some ''abc'', req_validityMinutes = Some 1\<rparr>"

definition demoEntry :: UrlEntry where
  "demoEntry = \<lparr>idE = ''1000'', longUrl = ''https://example.com/page'',
                 shortUrl = ''http://localhost:3000/abc'', shortCode = ''abc'',
                 createdAt = 1000, expiresAt = 61000, clicks = 0, isValid = True,
                 customShortCode = Some ''abc''\<rparr>"

definition demoEmpty :: UrlService where
  "demoEmpty = \<lparr>urlEntries = [], shortCodeToId = Map.empty, storage = emptyStorage,
                 saveCalls = 0, swept = []\<rparr>"

definition demoCreated :: UrlService where
  "demoCreated = \<lparr>urlEntries = [(''1000'', demoEntry)],
                   shortCodeToId = [''abc'' \<mapsto> ''1000''],
                   storage = \<lparr>item_urlEntries = Some [demoEntry],
                              item_shortCodeMappings = Some [''abc'' \<mapsto> ''1000''],
                              refuses = (\<lambda>k. False)\<rparr>,
                   saveCalls = 1, swept = []\<rparr>"

text \<open>A store with two entries, the first of them expiring at 61000.\<close>

definition demoEntry2 :: UrlEntry where
  "demoEntry2 = \<lparr>idE = ''2000'', longUrl = ''http://example.org/'',
                  shortUrl = ''http://localhost:3000/xyz99'', shortCode = ''xyz99'',
                  createdAt = 2000, expiresAt = 1802000, clicks = 3, isValid = True,
                  customShortCode = None\<rparr>"

definition demoTwo :: UrlService where
  "demoTwo = \<lparr>urlEntries = [(''1000'', demoEntry), (''2000'', demoEntry2)],
               shortCodeToId = [''abc'' \<mapsto> ''1000'', ''xyz99'' \<mapsto> ''2000''],
               storage = emptyStorage, saveCalls = 0, swept = []\<rparr>"

text \<open>The same creation with a validity period of -5 minutes, and of 0 minutes.\<close>

definition demoRequestNegative :: CreateUrlRequest where
  "demoRequestNegative = demoRequest\<lparr>req_validityMinutes := Some (- 5)\<rparr>"

definition demoEntryNegative :: UrlEntry where
  "demoEntryNegative = demoEntry\<lparr>expiresAt := - 299000\<rparr>"

definition demoRequestZero :: CreateUrlRequest where
  "demoRequestZero = demoRequest\<lparr>req_validityMinutes := Some 0\<rparr>"

definition demoEntryZero :: UrlEntry where
  "demoEntryZero = demoEntry\<lparr>expiresAt := 1801000\<rparr>"

text \<open>
  A second creation with another custom code at the same clock reading as the first, and
  the state it leaves.
\<close>

definition demoRequestB :: CreateUrlRequest where
  "demoRequestB = \<lparr>req_longUrl = ''https://example.com/other'',
                    req_customShortCode = Some ''def'', req_validityMinutes = None\<rparr>"

definition demoEntryB :: UrlEntry where
  "demoEntryB = \<lparr>idE = ''1000'', longUrl = ''https://example.com/other'',
                  shortUrl = ''http://localhost:3000/def'', shortCode = ''def'',
                  createdAt = 1000, expiresAt = 1801000, clicks = 0, isValid = True,
                  customShortCode = Some ''def''\<rparr>"

definition demoCollided :: UrlService where
  "demoCollided = \<lparr>urlEntries = [(''1000'', demoEntryB)],
                    shortCodeToId = [''abc'' \<mapsto> ''1000'', ''def'' \<mapsto> ''1000''],
                    storage = \<lparr>item_urlEntries = Some [demoEntryB],
                               item_shortCodeMappings =
                                 Some [''abc'' \<mapsto> ''1000'', ''def'' \<mapsto> ''1000''],
                               refuses = (\<lambda>k. False)\<rparr>,
                    saveCalls = 2, swept = []\<rparr>"

text \<open>
  A creation without a custom code. A random source that always draws index 0 and an index
  that already holds \<^verbatim>\<open>AAAAAAAA\<close>. A validity period of \<open>2 * 10^11\<close> minutes.
\<close>

definition demoRequestPlain :: CreateUrlRequest where
  "demoRequestPlain = \<lparr>req_longUrl = ''https://example.com/page'',
                        req_customShortCode = None, req_validityMinutes = None\<rparr>"

definition demoEntryPlain :: UrlEntry where
  "demoEntryPlain = \<lparr>idE = ''1000'', longUrl = ''https://example.com/page'',
                 shortUrl = ''http://localhost:3000/ABCDEFGH'', shortCode = ''ABCDEFGH'',
                 createdAt = 1000, expiresAt = 1801000, clicks = 0, isValid = True,
                 customShortCode = None\<rparr>"

definition demoEnvStuck :: Env where
  "demoEnvStuck = demoEnv\<lparr>random := (\<lambda>k. 0)\<rparr>"

definition demoTaken :: UrlService where
  "demoTaken = demoEmpty\<lparr>shortCodeToId := [''AAAAAAAA'' \<mapsto> ''1'']\<rparr>"

definition demoRequestHuge :: CreateUrlRequest where
  "demoRequestHuge = demoRequestPlain\<lparr>req_validityMinutes := Some 200000000000\<rparr>"

section \<open>Facts about the map operations\<close>

lemma mapGet_mapSet: "mapGet (mapSet k v m) k' = (if k' = k then Some v else mapGet m k')"
  by (induction m) auto


lemma mapSet_idem: "mapSet k v (mapSet k v m) = mapSet k v m"
  by (induction m) auto

lemma mapSet_absent: "k \<notin> fst ` set m \<Longrightarrow> mapSet k v m = m @ [(k, v)]"
  by (induction m) auto

lemma mapSet_keys: "fst ` set (mapSet k v m) = insert k (fst ` set m)"
  by (induction m) auto

lemma set_mapSet: "set (mapSet k v m) \<subseteq> insert (k, v) (set m)"
  by (induction m) auto

lemma distinct_mapSet: "distinct (map fst m) \<Longrightarrow> distinct (map fst (mapSet k v m))"
  by (induction m) (auto simp: mapSet_keys)

lemma mapGet_None_iff: "mapGet m k = None \<longleftrightarrow> k \<notin> fst ` set m"
  by (induction m) auto

lemma mapGet_Some_mem: "mapGet m k = Some v \<Longrightarrow> (k, v) \<in> set m"
  by (induction m) (auto split: if_splits)

lemma distinct_mapGet: "distinct (map fst m) \<Longrightarrow> p \<in> set m \<Longrightarrow> mapGet m (fst p) = Some (snd p)"
  by (induction m) (auto simp: rev_image_eqI)

lemma mapDelete_subset: "set (mapDelete k m) \<subseteq> set m"
  by (induction m) auto

lemma mapGet_mapDelete_same: "distinct (map fst m) \<Longrightarrow> mapGet (mapDelete k m) k = None"
  by (induction m) (auto simp: mapGet_None_iff)

lemma mapGet_mapDelete_other: "k' \<noteq> k \<Longrightarrow> mapGet (mapDelete k m) k' = mapGet m k'"
  by (induction m) auto

lemma mapDelete_filter:
  "distinct (map fst m) \<Longrightarrow> mapDelete k m = filter (\<lambda>p. fst p \<noteq> k) m"
proof (induction m)
  case Nil
  then show ?case by simp
next
  case (Cons p m)
  have "fst p \<notin> fst ` set m \<Longrightarrow> filter (\<lambda>q. fst q \<noteq> fst p) m = m"
    by (force simp: filter_id_conv image_iff)
  with Cons show ?case by auto
qed

lemma distinct_keys_filter: "distinct (map fst m) \<Longrightarrow> distinct (map fst (filter P m))"
  by (simp add: distinct_map_filter)

lemma mapSet_same_key_map:
  "mapGet m k = Some e \<Longrightarrow> f e' = f e \<Longrightarrow>
     map (\<lambda>p. (fst p, f (snd p))) (mapSet k e' m) = map (\<lambda>p. (fst p, f (snd p))) m"
  by (induction m) (auto split: if_splits)

lemma list_all_mapSet: "list_all P m \<Longrightarrow> P (k, v) \<Longrightarrow> list_all P (mapSet k v m)"
  using set_mapSet[of k v m] by (auto simp: list_all_iff)

lemma list_all_mapDelete: "list_all P m \<Longrightarrow> list_all P (mapDelete k m)"
  using mapDelete_subset[of k m] by (auto simp: list_all_iff)

lemma list_all_mapGet: "list_all P m \<Longrightarrow> mapGet m k = Some v \<Longrightarrow> P (k, v)"
  by (auto simp: list_all_iff dest: mapGet_Some_mem)

section \<open>Facts about saving and loading\<close>

lemma saveToStorage_fields:
  "urlEntries (saveToStorage s) = urlEntries s"
  "shortCodeToId (saveToStorage s) = shortCodeToId s"
  "saveCalls (saveToStorage s) = Suc (saveCalls s)"
  "swept (saveToStorage s) = swept s"
  by (simp_all add: saveToStorage_def Let_def)

lemma saveToStorage_written:
  "\<not> refuses (storage s) ''urlEntries'' \<Longrightarrow>
     item_urlEntries (storage (saveToStorage s)) = Some (mapValues (urlEntries s))"
  by (simp add: saveToStorage_def Let_def)

lemma saveToStorage_items:
  "item_urlEntries (storage (saveToStorage s)) = Some urls \<Longrightarrow>
     urls = mapValues (urlEntries s) \<or> item_urlEntries (storage s) = Some urls"
  by (auto simp: saveToStorage_def Let_def split: if_splits)

lemma loadUrls_storage: "storage (loadUrls urls s) = storage s"
  by (induction urls arbitrary: s) simp_all

lemma loadUrls_entries_all:
  "list_all (\<lambda>p. P (snd p)) (urlEntries s) \<Longrightarrow> list_all P urls \<Longrightarrow>
     list_all (\<lambda>p. P (snd p)) (urlEntries (loadUrls urls s))"
  by (induction urls arbitrary: s) (simp_all add: list_all_mapSet)

lemma loadUrls_appends:
  "storedUnderOwnId m \<Longrightarrow> fst ` set (urlEntries s) \<inter> fst ` set m = {} \<Longrightarrow>
     urlEntries (loadUrls (map snd m) s) = urlEntries s @ m"
proof (induction m arbitrary: s)
  case Nil
  then show ?case by simp
next
  case (Cons p m)
  from Cons.prems have p: "idE (snd p) = fst p" "fst p \<notin> fst ` set (urlEntries s)"
    "fst p \<notin> fst ` set m" and m: "storedUnderOwnId m"
    by (auto simp: storedUnderOwnId_def)
  let ?s1 = "s\<lparr>urlEntries := mapSet (idE (snd p)) (snd p) (urlEntries s),
                shortCodeToId := (shortCodeToId s)(shortCode (snd p) \<mapsto> idE (snd p))\<rparr>"
  from p have e: "urlEntries ?s1 = urlEntries s @ [p]"
    by (simp add: mapSet_absent)
  with p Cons.prems(2) have "fst ` set (urlEntries ?s1) \<inter> fst ` set m = {}"
    by auto
  from Cons.IH[OF m this] e show ?case by simp
qed

lemma newService_storage: "storage (newService ls) = ls"
  by (simp add: newService_def loadFromStorage_def Let_def loadUrls_storage split: option.splits)

lemma newService_entries_all:
  "(case item_urlEntries ls of None \<Rightarrow> True | Some urls \<Rightarrow> list_all P urls) \<Longrightarrow>
     list_all (\<lambda>p. P (snd p)) (urlEntries (newService ls))"
  by (auto simp: newService_def loadFromStorage_def Let_def split: option.splits
        intro!: loadUrls_entries_all)

lemma fresh_service: "newService emptyStorage = demoEmpty"
  by (simp add: newService_def loadFromStorage_def emptyStorage_def demoEmpty_def)

lemma roundtrip_entries:
  assumes "storedUnderOwnId (urlEntries s)" "\<not> refuses (storage s) ''urlEntries''"
  shows "urlEntries (newService (storage (saveToStorage s))) = urlEntries s"
proof -
  let ?s0 = "\<lparr>urlEntries = [], shortCodeToId = Map.empty,
              storage = storage (saveToStorage s), saveCalls = 0, swept = []\<rparr>"
  from assms(2) have i: "item_urlEntries (storage (saveToStorage s)) = Some (map snd (urlEntries s))"
    by (simp add: saveToStorage_written mapValues_def)
  from assms(1) have "urlEntries (loadUrls (map snd (urlEntries s)) ?s0) = urlEntries ?s0 @ urlEntries s"
    by (intro loadUrls_appends) simp_all
  with i show ?thesis
    by (simp add: newService_def loadFromStorage_def Let_def split: option.splits)
qed

lemma roundtrip_index:
  assumes "\<not> refuses (storage s) ''urlEntries''" "\<not> refuses (storage s) ''shortCodeMappings''"
    "shortCodeToId s c \<noteq> None"
  shows "shortCodeToId (newService (storage (saveToStorage s))) c = shortCodeToId s c"
proof -
  from assms(1,2) have "item_shortCodeMappings (storage (saveToStorage s)) = Some (shortCodeToId s)"
    by (simp add: saveToStorage_def Let_def)
  with assms(3) show ?thesis
    by (auto simp: newService_def loadFromStorage_def Let_def map_add_def split: option.splits)
qed

section \<open>Facts about lookup, clicks and deletion\<close>

lemma getUrlByShortCode_expired:
  assumes "shortCodeToId s code = Some urlId" "urlId \<noteq> []"
    "mapGet (urlEntries s) urlId = Some e" "now > expiresAt e"
  shows "getUrlByShortCode now code s =
           (None, saveToStorage (s\<lparr>urlEntries :=
              mapSet (idE e) (e\<lparr>isValid := False\<rparr>)
                (mapSet urlId (e\<lparr>isValid := False\<rparr>) (urlEntries s))\<rparr>))"
  using assms by (simp add: getUrlByShortCode_def Let_def)

lemma getUrlByShortCode_live:
  assumes "shortCodeToId s code = Some urlId" "urlId \<noteq> []"
    "mapGet (urlEntries s) urlId = Some e" "\<not> now > expiresAt e"
  shows "getUrlByShortCode now code s = (Some e, s)"
  using assms by (simp add: getUrlByShortCode_def)

lemma getUrlByShortCode_Some:
  "getUrlByShortCode now code s = (Some e, s1) \<Longrightarrow>
     s1 = s \<and> (\<exists>urlId. shortCodeToId s code = Some urlId \<and> mapGet (urlEntries s) urlId = Some e)"
  by (auto simp: getUrlByShortCode_def Let_def split: option.splits if_splits)

lemma incrementClicks_live:
  assumes "shortCodeToId s code = Some urlId" "urlId \<noteq> []"
    "mapGet (urlEntries s) urlId = Some e" "\<not> now > expiresAt e"
  shows "incrementClicks now code s =
           (True, saveToStorage (s\<lparr>urlEntries :=
              mapSet (idE e) (e\<lparr>clicks := Suc (clicks e)\<rparr>)
                (mapSet urlId (e\<lparr>clicks := Suc (clicks e)\<rparr>) (urlEntries s))\<rparr>))"
  using assms by (simp add: incrementClicks_def getUrlByShortCode_live Let_def)

lemma incrementClicks_expired:
  assumes "shortCodeToId s code = Some urlId" "urlId \<noteq> []"
    "mapGet (urlEntries s) urlId = Some e" "now > expiresAt e" "idE e = urlId"
  shows "incrementClicks now code s =
           (False, saveToStorage (s\<lparr>urlEntries := mapSet urlId (e\<lparr>isValid := False\<rparr>) (urlEntries s)\<rparr>))"
  using assms by (simp add: incrementClicks_def getUrlByShortCode_expired mapSet_idem)

lemma incrementClicks_unknown:
  "shortCodeToId s code = None \<or> shortCodeToId s code = Some [] \<or>
     (\<exists>urlId. shortCodeToId s code = Some urlId \<and> mapGet (urlEntries s) urlId = None)
   \<Longrightarrow> incrementClicks now code s = (False, s)"
  by (auto simp: incrementClicks_def getUrlByShortCode_def)

lemma repeatIncrementClicks_live:
  assumes "shortCodeToId s code = Some urlId" "urlId \<noteq> []"
    "mapGet (urlEntries s) urlId = Some e" "\<forall>t\<in>set nows. \<not> t > expiresAt e"
  shows "\<exists>s'. repeatIncrementClicks nows code s = (replicate (length nows) True, s')
           \<and> shortCodeToId s' = shortCodeToId s
           \<and> mapGet (urlEntries s') urlId = Some (e\<lparr>clicks := clicks e + length nows\<rparr>)"
  using assms
proof (induction nows arbitrary: s e)
  case Nil
  then show ?case by simp
next
  case (Cons now nows)
  let ?e1 = "e\<lparr>clicks := Suc (clicks e)\<rparr>"
  let ?s1 = "saveToStorage (s\<lparr>urlEntries := mapSet (idE e) ?e1 (mapSet urlId ?e1 (urlEntries s))\<rparr>)"
  from Cons.prems have step: "incrementClicks now code s = (True, ?s1)"
    by (simp add: incrementClicks_live)
  have idx: "shortCodeToId ?s1 = shortCodeToId s"
    by (simp add: saveToStorage_fields)
  have ent: "mapGet (urlEntries ?s1) urlId = Some ?e1"
    by (simp add: saveToStorage_fields mapGet_mapSet)
  from Cons.prems have live: "\<forall>t\<in>set nows. \<not> t > expiresAt ?e1" by simp
  from Cons.IH[of ?s1 ?e1] Cons.prems(1,2) idx ent live
  obtain s' where r: "repeatIncrementClicks nows code ?s1 = (replicate (length nows) True, s')"
    and i: "shortCodeToId s' = shortCodeToId ?s1"
    and g: "mapGet (urlEntries s') urlId = Some (?e1\<lparr>clicks := clicks ?e1 + length nows\<rparr>)"
    by auto
  from step r i idx g show ?case by simp
qed

lemma deleteUrl_absent: "mapGet (urlEntries s) i = None \<Longrightarrow> deleteUrl i s = (False, s)"
  by (simp add: deleteUrl_def)

lemma deleteUrl_present:
  assumes "mapGet (urlEntries s) i = Some e"
  shows "deleteUrl i s = (True, saveToStorage (s\<lparr>urlEntries := mapDelete i (urlEntries s),
                                   shortCodeToId := (shortCodeToId s)(shortCode e := None)\<rparr>))"
  using assms by (simp add: deleteUrl_def)

section \<open>Facts about the sweep\<close>

lemma removeExpired_entries:
  "distinct (map fst (urlEntries s)) \<Longrightarrow>
     urlEntries (removeExpired ids s) = filter (\<lambda>p. fst p \<notin> set ids) (urlEntries s)"
proof (induction ids arbitrary: s)
  case Nil
  then show ?case by simp
next
  case (Cons i ids)
  let ?s1 = "s\<lparr>urlEntries := mapDelete i (urlEntries s),
               shortCodeToId := (case mapGet (urlEntries s) i of
                   None \<Rightarrow> shortCodeToId s
                 | Some e \<Rightarrow> (shortCodeToId s)(shortCode e := None)),
               swept := (case mapGet (urlEntries s) i of
                   None \<Rightarrow> swept s
                 | Some e \<Rightarrow> swept s @ [e])\<rparr>"
  from Cons.prems have d: "mapDelete i (urlEntries s) = filter (\<lambda>p. fst p \<noteq> i) (urlEntries s)"
    by (rule mapDelete_filter)
  with Cons.prems have "distinct (map fst (urlEntries ?s1))"
    by (simp add: distinct_keys_filter)
  from Cons.IH[OF this] d show ?case
    by (simp add: Let_def conj_commute)
qed

lemma removeExpired_index_None:
  "shortCodeToId s c = None \<Longrightarrow> shortCodeToId (removeExpired ids s) c = None"
  by (induction ids arbitrary: s) (auto simp: Let_def split: option.splits)

lemma removeExpired_index_removed:
  "i \<in> set ids \<Longrightarrow> mapGet (urlEntries s) i = Some e \<Longrightarrow>
     shortCodeToId (removeExpired ids s) (shortCode e) = None"
proof (induction ids arbitrary: s)
  case Nil
  then show ?case by simp
next
  case (Cons j ids)
  show ?case
  proof (cases "j = i")
    case True
    with Cons.prems show ?thesis
      by (simp add: Let_def removeExpired_index_None)
  next
    case False
    with Cons.prems have "i \<in> set ids" by simp
    moreover from False Cons.prems have
      "mapGet (mapDelete j (urlEntries s)) i = Some e"
      by (simp add: mapGet_mapDelete_other)
    ultimately show ?thesis
      using Cons.IH by (simp add: Let_def)
  qed
qed

lemma removeExpired_storage: "storage (removeExpired ids s) = storage s"
  by (induction ids arbitrary: s) (simp_all add: Let_def)

lemma removeExpired_subset: "set (urlEntries (removeExpired ids s)) \<subseteq> set (urlEntries s)"
proof (induction ids arbitrary: s)
  case Nil
  then show ?case by simp
next
  case (Cons i ids)
  let ?s1 = "s\<lparr>urlEntries := mapDelete i (urlEntries s),
               shortCodeToId := (case mapGet (urlEntries s) i of
                   None \<Rightarrow> shortCodeToId s
                 | Some e \<Rightarrow> (shortCodeToId s)(shortCode e := None)),
               swept := (case mapGet (urlEntries s) i of
                   None \<Rightarrow> swept s
                 | Some e \<Rightarrow> swept s @ [e])\<rparr>"
  from Cons.IH[of ?s1] mapDelete_subset[of i "urlEntries s"]
  show ?case by (auto simp: Let_def)
qed

lemma markExpired_keys: "map fst (markExpired now m) = map fst m"
  by (induction m) (auto simp: markExpired_def)

lemma mapGet_markExpired:
  "mapGet m k = Some e \<Longrightarrow> expiresAt e < now \<Longrightarrow>
     mapGet (markExpired now m) k = Some (e\<lparr>isValid := False\<rparr>)"
  by (induction m) (auto simp: markExpired_def split: if_splits)

lemma filter_marked:
  "distinct (map fst m) \<Longrightarrow>
     filter (\<lambda>p. fst p \<notin> set (expiredIds now m)) (markExpired now m) =
     filter (\<lambda>p. \<not> expiresAt (snd p) < now) m"
proof -
  assume d: "distinct (map fst m)"
  have key: "\<And>p. p \<in> set m \<Longrightarrow> (fst p \<in> set (expiredIds now m)) = (expiresAt (snd p) < now)"
  proof -
    fix p assume p: "p \<in> set m"
    show "(fst p \<in> set (expiredIds now m)) = (expiresAt (snd p) < now)"
    proof
      assume "fst p \<in> set (expiredIds now m)"
      then obtain q where q: "q \<in> set m" "expiresAt (snd q) < now" "fst q = fst p"
        by (auto simp: expiredIds_def)
      with d p have "q = p" by (metis eq_key_imp_eq_value prod.collapse)
      with q show "expiresAt (snd p) < now" by simp
    next
      assume "expiresAt (snd p) < now"
      with p show "fst p \<in> set (expiredIds now m)" by (force simp: expiredIds_def)
    qed
  qed
  have "filter (\<lambda>p. fst p \<notin> set (expiredIds now m)) (markExpired now m) =
        map (\<lambda>p. if expiresAt (snd p) < now then (fst p, (snd p)\<lparr>isValid := False\<rparr>) else p)
          (filter (\<lambda>p. fst p \<notin> set (expiredIds now m)) m)"
    unfolding markExpired_def filter_map
    by (rule arg_cong[where f="map _"], rule filter_cong) auto
  also have "filter (\<lambda>p. fst p \<notin> set (expiredIds now m)) m = filter (\<lambda>p. \<not> expiresAt (snd p) < now) m"
    by (rule filter_cong) (auto simp: key)
  also have "map (\<lambda>p. if expiresAt (snd p) < now then (fst p, (snd p)\<lparr>isValid := False\<rparr>) else p)
          (filter (\<lambda>p. \<not> expiresAt (snd p) < now) m) = filter (\<lambda>p. \<not> expiresAt (snd p) < now) m"
    by (rule map_idI) auto
  finally show ?thesis .
qed

lemma cleanup_entries:
  assumes "distinct (map fst (urlEntries s))"
  shows "urlEntries (snd (cleanupExpiredUrls now s)) =
           filter (\<lambda>p. \<not> expiresAt (snd p) < now) (urlEntries s)"
proof -
  from assms have "urlEntries (removeExpired (expiredIds now (urlEntries s))
        (s\<lparr>urlEntries := markExpired now (urlEntries s)\<rparr>)) =
      filter (\<lambda>p. \<not> expiresAt (snd p) < now) (urlEntries s)"
    by (simp add: removeExpired_entries markExpired_keys filter_marked)
  then show ?thesis
    by (auto simp: cleanupExpiredUrls_def Let_def saveToStorage_fields)
qed

lemma cleanup_count:
  "fst (cleanupExpiredUrls now s) = length (filter (\<lambda>p. expiresAt (snd p) < now) (urlEntries s))"
  by (simp add: cleanupExpiredUrls_def Let_def expiredIds_def)

lemma cleanup_index:
  assumes "distinct (map fst (urlEntries s))" "p \<in> set (urlEntries s)" "expiresAt (snd p) < now"
  shows "shortCodeToId (snd (cleanupExpiredUrls now s)) (shortCode (snd p)) = None"
proof -
  from assms have "mapGet (markExpired now (urlEntries s)) (fst p) = Some ((snd p)\<lparr>isValid := False\<rparr>)"
    by (simp add: distinct_mapGet mapGet_markExpired)
  moreover from assms have "fst p \<in> set (expiredIds now (urlEntries s))"
    by (force simp: expiredIds_def)
  ultimately have "shortCodeToId (removeExpired (expiredIds now (urlEntries s))
        (s\<lparr>urlEntries := markExpired now (urlEntries s)\<rparr>)) (shortCode ((snd p)\<lparr>isValid := False\<rparr>)) = None"
    by (intro removeExpired_index_removed[where i="fst p"]) simp_all
  then have "shortCodeToId (removeExpired (expiredIds now (urlEntries s))
        (s\<lparr>urlEntries := markExpired now (urlEntries s)\<rparr>)) (shortCode (snd p)) = None"
    by simp
  then show ?thesis
    by (auto simp: cleanupExpiredUrls_def Let_def saveToStorage_fields)
qed

lemma cleanup_nothing_expired:
  assumes "\<forall>p\<in>set (urlEntries s). \<not> expiresAt (snd p) < now"
  shows "cleanupExpiredUrls now s = (0, s)"
proof -
  from assms have e: "expiredIds now (urlEntries s) = []"
    by (auto simp: expiredIds_def filter_empty_conv)
  from assms have "markExpired now (urlEntries s) = urlEntries s"
    unfolding markExpired_def by (intro map_idI) auto
  with e show ?thesis by (simp add: cleanupExpiredUrls_def)
qed

lemma cleanup_twice:
  assumes "distinct (map fst (urlEntries s))"
  shows "cleanupExpiredUrls now (snd (cleanupExpiredUrls now s)) = (0, snd (cleanupExpiredUrls now s))"
  by (rule cleanup_nothing_expired) (simp add: cleanup_entries[OF assms])

lemma removeExpired_swept:
  "distinct (map fst ps) \<Longrightarrow> (\<forall>p\<in>set ps. mapGet (urlEntries s) (fst p) = Some (snd p)) \<Longrightarrow>
     swept (removeExpired (map fst ps) s) = swept s @ map snd ps"
proof (induction ps arbitrary: s)
  case Nil
  then show ?case by simp
next
  case (Cons p ps)
  let ?s1 = "s\<lparr>urlEntries := mapDelete (fst p) (urlEntries s),
               shortCodeToId := (shortCodeToId s)(shortCode (snd p) := None),
               swept := swept s @ [snd p]\<rparr>"
  from Cons.prems have p: "mapGet (urlEntries s) (fst p) = Some (snd p)" by simp
  have rest: "\<forall>q\<in>set ps. mapGet (urlEntries ?s1) (fst q) = Some (snd q)"
  proof
    fix q assume q: "q \<in> set ps"
    with Cons.prems(1) have "fst q \<noteq> fst p" by (force simp: image_iff)
    with q Cons.prems(2) show "mapGet (urlEntries ?s1) (fst q) = Some (snd q)"
      by (simp add: mapGet_mapDelete_other)
  qed
  from Cons.prems(1) have "distinct (map fst ps)" by simp
  from Cons.IH[OF this rest] p show ?case by (simp add: Let_def)
qed

lemma filter_markExpired:
  "filter (\<lambda>p. expiresAt (snd p) < now) (markExpired now m) =
     map (\<lambda>p. (fst p, (snd p)\<lparr>isValid := False\<rparr>)) (filter (\<lambda>p. expiresAt (snd p) < now) m)"
  by (induction m) (auto simp: markExpired_def)

lemma cleanup_swept:
  assumes "distinct (map fst (urlEntries s))"
  shows "swept (snd (cleanupExpiredUrls now s)) =
           swept s @ map (\<lambda>p. (snd p)\<lparr>isValid := False\<rparr>)
                       (filter (\<lambda>p. expiresAt (snd p) < now) (urlEntries s))"
proof -
  let ?ps = "filter (\<lambda>p. expiresAt (snd p) < now) (markExpired now (urlEntries s))"
  let ?s1 = "s\<lparr>urlEntries := markExpired now (urlEntries s)\<rparr>"
  have dm: "distinct (map fst (markExpired now (urlEntries s)))"
    using assms by (simp add: markExpired_keys)
  then have d: "distinct (map fst ?ps)" by (rule distinct_keys_filter)
  have g: "\<forall>p\<in>set ?ps. mapGet (urlEntries ?s1) (fst p) = Some (snd p)"
    using distinct_mapGet[OF dm] by simp
  have k: "map fst ?ps = expiredIds now (urlEntries s)"
    by (simp add: filter_markExpired expiredIds_def comp_def)
  have v: "map snd ?ps = map (\<lambda>p. (snd p)\<lparr>isValid := False\<rparr>)
                       (filter (\<lambda>p. expiresAt (snd p) < now) (urlEntries s))"
    by (simp add: filter_markExpired comp_def)
  from removeExpired_swept[OF d g] k v
  have "swept (removeExpired (expiredIds now (urlEntries s)) ?s1) =
      swept s @ map (\<lambda>p. (snd p)\<lparr>isValid := False\<rparr>)
                       (filter (\<lambda>p. expiresAt (snd p) < now) (urlEntries s))"
    by simp
  then show ?thesis
    by (auto simp: cleanupExpiredUrls_def Let_def saveToStorage_fields)
qed

section \<open>Decimal numerals\<close>

text \<open>The numeral of a number is not empty, and different numbers have different numerals.\<close>


lemma natToString_nonempty: "natToString n \<noteq> []"
  by (subst natToString.simps) simp

lemma toString_nonempty: "toString i \<noteq> []"
  by (simp add: toString_def natToString_nonempty)

lemma digit_inj:
  "a < 10 \<Longrightarrow> b < 10 \<Longrightarrow> ''0123456789'' ! a = ''0123456789'' ! b \<Longrightarrow> a = b"
  by (subst (asm) nth_eq_iff_index_eq) simp_all

lemma natToString_digits: "set (natToString n) \<subseteq> set ''0123456789''"
proof (induction n rule: natToString.induct)
  case (1 n)
  have d: "\<And>k. k < 10 \<Longrightarrow> ''0123456789'' ! k \<in> set ''0123456789''"
    by (rule nth_mem) simp
  show ?case
  proof (cases "n < 10")
    case True
    with d[of n] show ?thesis by (subst natToString.simps) simp
  next
    case False
    with 1 d[of "n mod 10"] show ?thesis by (subst natToString.simps) simp
  qed
qed

lemma natToString_inj: "natToString n = natToString m \<Longrightarrow> n = m"
proof (induction n arbitrary: m rule: natToString.induct)
  case (1 n)
  show ?case
  proof (cases "n < 10")
    case n: True
    show ?thesis
    proof (cases "m < 10")
      case True
      with n 1(2) show ?thesis
        by (subst (asm) natToString.simps, subst (asm) (2) natToString.simps)
           (auto dest: digit_inj)
    next
      case False
      with n 1(2) natToString_nonempty[of "m div 10"] show ?thesis
        by (subst (asm) natToString.simps, subst (asm) (2) natToString.simps) auto
    qed
  next
    case n: False
    show ?thesis
    proof (cases "m < 10")
      case True
      with n 1(2) natToString_nonempty[of "n div 10"] show ?thesis
        by (subst (asm) natToString.simps, subst (asm) (2) natToString.simps) auto
    next
      case False
      with n 1(2) have e: "natToString (n div 10) = natToString (m div 10)"
        and d: "''0123456789'' ! (n mod 10) = ''0123456789'' ! (m mod 10)"
        by (subst (asm) natToString.simps, subst (asm) (2) natToString.simps, simp)+
      from 1(1)[OF n e] have "n div 10 = m div 10" .
      moreover from d have "n mod 10 = m mod 10" by (intro digit_inj) simp_all
      ultimately show ?thesis by (metis div_mult_mod_eq)
    qed
  qed
qed

lemma toString_inj: "toString i = toString j \<Longrightarrow> i = j"
proof -
  assume e: "toString i = toString j"
  have minus: "\<And>n. CHR ''-'' \<notin> set (natToString n)"
    using natToString_digits by fastforce
  have neq: "\<And>n m. CHR ''-'' # natToString n \<noteq> natToString m"
    using minus by (metis list.set_intros(1))
  show "i = j"
  proof (cases "i < 0")
    case i: True
    show ?thesis
    proof (cases "j < 0")
      case True
      with i e have "nat (- i) = nat (- j)"
        by (auto simp: toString_def dest: natToString_inj)
      with i True show ?thesis by simp
    next
      case False
      with i e neq show ?thesis by (auto simp: toString_def)
    qed
  next
    case i: False
    show ?thesis
    proof (cases "j < 0")
      case True
      with i e neq[of "nat (- j)" "nat i"] show ?thesis by (auto simp: toString_def)
    next
      case False
      with i e have "nat i = nat j"
        by (auto simp: toString_def dest: natToString_inj)
      with i False show ?thesis by simp
    qed
  qed
qed

section \<open>Facts about code generation\<close>

lemma generateShortCode_unused:
  "generateShortCode rnd pos idx = Some c \<Longrightarrow> idx c = None"
  by (rule generateShortCode.raw_induct[where P="\<lambda>rnd pos idx c. idx c = None"])
     (auto simp: Let_def split: if_splits)

lemma generateShortCode_drawn:
  "generateShortCode rnd pos idx = Some c \<Longrightarrow> \<exists>k. c = drawCode rnd (pos + 8 * k)"
proof (rule generateShortCode.raw_induct[where P="\<lambda>rnd pos idx c. \<exists>k. c = drawCode rnd (pos + 8 * k)"])
  fix f rnd pos idx c
  assume IH: "\<And>rnd pos idx c. f rnd pos idx = Some c \<Longrightarrow> \<exists>k. c = drawCode rnd (pos + 8 * k)"
    and st: "(let shortCode = drawCode rnd pos
              in if idx shortCode \<noteq> None then f rnd (pos + 8) idx else Some shortCode) = Some c"
  show "\<exists>k. c = drawCode rnd (pos + 8 * k)"
  proof (cases "idx (drawCode rnd pos) \<noteq> None")
    case True
    with st have "f rnd (pos + 8) idx = Some c" by (simp add: Let_def)
    from IH[OF this] obtain k where "c = drawCode rnd (pos + 8 + 8 * k)" by blast
    then have "c = drawCode rnd (pos + 8 * Suc k)" by (simp add: add.assoc)
    then show ?thesis by blast
  next
    case False
    with st have "c = drawCode rnd (pos + 8 * 0)" by (simp add: Let_def)
    then show ?thesis by blast
  qed
qed

lemma generateShortCode_returns:
  "idx (drawCode rnd (pos + 8 * k)) = None \<Longrightarrow> \<exists>c. generateShortCode rnd pos idx = Some c"
proof (induction k arbitrary: pos)
  case 0
  then show ?case by (subst generateShortCode.simps) (simp add: Let_def)
next
  case (Suc k)
  show ?case
  proof (cases "idx (drawCode rnd pos) = None")
    case True
    then show ?thesis by (subst generateShortCode.simps) (simp add: Let_def)
  next
    case False
    from Suc.prems have "idx (drawCode rnd ((pos + 8) + 8 * k)) = None"
      by (simp add: add.assoc)
    from Suc.IH[OF this] obtain c where "generateShortCode rnd (pos + 8) idx = Some c" by blast
    with False show ?thesis by (subst generateShortCode.simps) (simp add: Let_def)
  qed
qed

lemma generateShortCode_stuck:
  assumes "\<And>k. idx (drawCode rnd (pos + 8 * k)) \<noteq> None"
  shows "generateShortCode rnd pos idx = None"
proof (cases "generateShortCode rnd pos idx")
  case None
  then show ?thesis .
next
  case (Some c)
  from generateShortCode_drawn[OF Some] generateShortCode_unused[OF Some] assms
  show ?thesis by blast
qed

lemma length_chars: "length chars = 62"
  by (simp add: chars_def)

lemma charAt_chars: "i < 62 \<Longrightarrow> charAt chars i = [chars ! i] \<and> chars ! i \<in> set chars"
  by (simp add: charAt_def length_chars)

lemma length_concat_singletons:
  "(\<And>x. x \<in> set xs \<Longrightarrow> length (f x) = 1) \<Longrightarrow> length (concat (map f xs)) = length xs"
  by (induction xs) simp_all

lemma drawCode_shape:
  assumes "\<forall>k. rnd k < 62"
  shows "length (drawCode rnd pos) = 8 \<and> set (drawCode rnd pos) \<subseteq> set chars"
proof -
  have c: "\<And>i. charAt chars (rnd (pos + i)) = [chars ! rnd (pos + i)]
              \<and> chars ! rnd (pos + i) \<in> set chars"
    using assms by (intro charAt_chars) simp
  have "length (drawCode rnd pos) = length [0..<8::nat]"
    unfolding drawCode_def by (rule length_concat_singletons) (simp add: c)
  moreover have "set (drawCode rnd pos) \<subseteq> set chars"
    unfolding drawCode_def by (auto simp: c)
  ultimately show ?thesis by simp
qed

lemma alnum_chars: "c \<in> set chars \<Longrightarrow> alnum c"
  unfolding chars_def alnum_def by auto

lemma drawCode_stuck: "drawCode (\<lambda>k. 0) pos = ''AAAAAAAA''"
  by (simp add: drawCode_def charAt_def chars_def upt_rec)

lemma drawCode_demo: "drawCode (\<lambda>k. k mod 62) 0 = ''ABCDEFGH''"
  by (simp add: drawCode_def charAt_def chars_def upt_rec)

section \<open>Facts about creation\<close>

lemma storeEntry_Returns:
  assumes "storeEntry env request code s = Returns (resp, s')"
  shows "\<exists>e. resp = \<lparr>success = True, urlEntry = Some e, error = None\<rparr>
     \<and> idE e = toString (dateNow env) \<and> shortCode e = code
     \<and> createdAt e = newDate env
     \<and> expiresAt e = newDate env +
          (case req_validityMinutes request of None \<Rightarrow> 30 | Some v \<Rightarrow> if v = 0 then 30 else v) * 60 * 1000
     \<and> clicks e = 0 \<and> isValid e
     \<and> s' = saveToStorage (s\<lparr>urlEntries := mapSet (idE e) e (urlEntries s),
                      shortCodeToId := (shortCodeToId s)(code \<mapsto> idE e)\<rparr>)"
  using assms by (auto simp: storeEntry_def Let_def split: if_splits)

lemma storeEntry_succeeds:
  assumes "validTime (newDate env +
      (case req_validityMinutes request of None \<Rightarrow> 30 | Some v \<Rightarrow> if v = 0 then 30 else v) * 60 * 1000)"
  shows "\<exists>resp s' e. storeEntry env request code s = Returns (resp, s') \<and> success resp
     \<and> urlEntry resp = Some e \<and> shortCode e = code
     \<and> shortCodeToId s' code = Some (idE e)"
  using assms by (simp add: storeEntry_def Let_def saveToStorage_fields)

lemma storeEntry_expiry_after:
  assumes "storeEntry env request code s = Returns (resp, s')" "urlEntry resp = Some e"
    "case req_validityMinutes request of None \<Rightarrow> True | Some v \<Rightarrow> 0 \<le> v"
  shows "createdAt e < expiresAt e"
  using storeEntry_Returns[OF assms(1)] assms(2,3) by (auto split: option.splits)

lemma generated_Returns:
  assumes "generated env request s = Returns r"
  shows "\<exists>c. storeEntry env request c s = Returns r \<and> shortCodeToId s c = None"
  using assms by (auto simp: generated_def split: option.splits dest: generateShortCode_unused)

lemma validateShortCode_Valid: "validateShortCode s c = Valid \<Longrightarrow> shortCodeToId s c = None"
  by (auto simp: validateShortCode_def split: if_splits)

lemma createShortUrl_Returns_cases:
  assumes "createShortUrl env request s = Returns (resp, s')"
  shows "(\<not> success resp \<and> urlEntry resp = None \<and> s' = s) \<or>
         (\<exists>c. storeEntry env request c s = Returns (resp, s') \<and> shortCodeToId s c = None)"
proof (cases "validateLongUrl env (req_longUrl request)")
  case (Invalid err)
  with assms show ?thesis by (auto simp: createShortUrl_def failure_def)
next
  case Valid
  show ?thesis
  proof (cases "req_customShortCode request")
    case None
    with Valid assms show ?thesis
      by (auto simp: createShortUrl_def dest: generated_Returns)
  next
    case (Some custom)
    show ?thesis
    proof (cases "custom = []")
      case True
      with Some Valid assms show ?thesis
        by (auto simp: createShortUrl_def dest: generated_Returns)
    next
      case False
      with Some Valid assms show ?thesis
        by (cases "validateShortCode s custom")
           (auto simp: createShortUrl_def failure_def dest: validateShortCode_Valid)
    qed
  qed
qed

lemma createShortUrl_success:
  assumes "createShortUrl env request s = Returns (resp, s')" "urlEntry resp = Some e"
  shows "storeEntry env request (shortCode e) s = Returns (resp, s') \<and> shortCodeToId s (shortCode e) = None"
proof -
  from createShortUrl_Returns_cases[OF assms(1)] assms(2)
  obtain c where st: "storeEntry env request c s = Returns (resp, s')" and c: "shortCodeToId s c = None"
    by auto
  from storeEntry_Returns[OF st] assms(2) have "shortCode e = c" by auto
  with st c show ?thesis by simp
qed

lemma createShortUrl_id_of_clock:
  assumes "createShortUrl env request s = Returns (resp, s')" "urlEntry resp = Some e"
  shows "idE e = toString (dateNow env)"
proof -
  from assms have "storeEntry env request (shortCode e) s = Returns (resp, s')"
    using createShortUrl_success by blast
  from storeEntry_Returns[OF this] assms(2) show ?thesis by auto
qed

section \<open>Every reachable store holds its entries under their own ids\<close>

lemma own_mapSet: "storedUnderOwnId m \<Longrightarrow> idE v = k \<Longrightarrow> storedUnderOwnId (mapSet k v m)"
  unfolding storedUnderOwnId_def by (simp add: distinct_mapSet list_all_mapSet)

lemma own_mapDelete: "storedUnderOwnId m \<Longrightarrow> storedUnderOwnId (mapDelete k m)"
  unfolding storedUnderOwnId_def
  by (simp add: mapDelete_filter distinct_keys_filter list_all_iff)

lemma own_mapGet: "storedUnderOwnId m \<Longrightarrow> mapGet m k = Some e \<Longrightarrow> idE e = k"
  unfolding storedUnderOwnId_def by (auto dest: list_all_mapGet)

lemma own_markExpired: "storedUnderOwnId m \<Longrightarrow> storedUnderOwnId (markExpired now m)"
  unfolding storedUnderOwnId_def
  by (auto simp: markExpired_keys) (auto simp: markExpired_def list_all_iff)

lemma own_removeExpired:
  "storedUnderOwnId (urlEntries s) \<Longrightarrow> storedUnderOwnId (urlEntries (removeExpired ids s))"
  by (induction ids arbitrary: s) (simp_all add: Let_def own_mapDelete)

lemma own_loadUrls:
  "storedUnderOwnId (urlEntries s) \<Longrightarrow> storedUnderOwnId (urlEntries (loadUrls urls s))"
  by (induction urls arbitrary: s) (simp_all add: own_mapSet)

lemma own_newService: "storedUnderOwnId (urlEntries (newService ls))"
  by (auto simp: newService_def loadFromStorage_def Let_def split: option.splits
        intro!: own_loadUrls) (simp_all add: storedUnderOwnId_def)

lemma own_getUrlByShortCode:
  "storedUnderOwnId (urlEntries s) \<Longrightarrow>
     storedUnderOwnId (urlEntries (snd (getUrlByShortCode now code s)))"
  by (auto simp: getUrlByShortCode_def Let_def saveToStorage_fields split: option.splits
        intro!: own_mapSet dest: own_mapGet)

lemma own_incrementClicks:
  assumes "storedUnderOwnId (urlEntries s)"
  shows "storedUnderOwnId (urlEntries (snd (incrementClicks now code s)))"
proof (cases "getUrlByShortCode now code s")
  case (Pair r s1)
  show ?thesis
  proof (cases r)
    case None
    with Pair own_getUrlByShortCode[OF assms, of now code] show ?thesis
      by (simp add: incrementClicks_def)
  next
    case (Some e)
    with Pair getUrlByShortCode_Some[of now code s e s1]
    obtain urlId where u: "s1 = s" "shortCodeToId s code = Some urlId"
      "mapGet (urlEntries s) urlId = Some e"
      by auto
    with assms have "idE e = urlId" by (auto dest: own_mapGet)
    with Pair Some u assms show ?thesis
      by (simp add: incrementClicks_def Let_def saveToStorage_fields own_mapSet)
  qed
qed

lemma own_deleteUrl:
  "storedUnderOwnId (urlEntries s) \<Longrightarrow> storedUnderOwnId (urlEntries (snd (deleteUrl i s)))"
  by (auto simp: deleteUrl_def saveToStorage_fields own_mapDelete split: option.splits)

lemma own_cleanup:
  "storedUnderOwnId (urlEntries s) \<Longrightarrow>
     storedUnderOwnId (urlEntries (snd (cleanupExpiredUrls now s)))"
  by (auto simp: cleanupExpiredUrls_def Let_def saveToStorage_fields
        intro!: own_removeExpired own_markExpired)

lemma own_createShortUrl:
  assumes "storedUnderOwnId (urlEntries s)" "createShortUrl env request s = Returns (resp, s')"
  shows "storedUnderOwnId (urlEntries s')"
  using createShortUrl_Returns_cases[OF assms(2)] assms(1)
  by (auto dest!: storeEntry_Returns simp: saveToStorage_fields own_mapSet)

lemma own_step:
  assumes "storedUnderOwnId (urlEntries s)" "step c s = Some s'"
  shows "storedUnderOwnId (urlEntries s')"
proof (cases c)
  case (Create env request)
  with assms show ?thesis
    by (auto split: outcome.splits intro: own_createShortUrl)
next
  case (Resolve now code)
  with assms show ?thesis by (auto intro: own_getUrlByShortCode)
next
  case (Click now code)
  with assms show ?thesis by (auto intro: own_incrementClicks)
next
  case (Delete i)
  with assms show ?thesis by (auto intro: own_deleteUrl)
next
  case (Sweep now)
  with assms show ?thesis by (auto intro: own_cleanup)
next
  case Restart
  with assms show ?thesis by (auto intro: own_newService)
next
  case (Quota r)
  with assms show ?thesis by auto
qed

lemma own_run:
  "storedUnderOwnId (urlEntries s) \<Longrightarrow> run cs s = Some s' \<Longrightarrow> storedUnderOwnId (urlEntries s')"
proof (induction cs arbitrary: s)
  case Nil
  then show ?case by simp
next
  case (Cons c cs)
  then show ?case by (auto split: option.splits dest: own_step)
qed

lemma reachable_storedUnderOwnId:
  "run cs (newService ls) = Some s \<Longrightarrow> storedUnderOwnId (urlEntries s)"
  using own_run[OF own_newService] .

section \<open>Expiry after creation is preserved\<close>

lemma expiry_saveToStorage:
  "list_all (\<lambda>p. createdAt (snd p) < expiresAt (snd p)) (urlEntries s) \<Longrightarrow>
   (case item_urlEntries (storage s) of None \<Rightarrow> True
      | Some urls \<Rightarrow> list_all (\<lambda>e. createdAt e < expiresAt e) urls) \<Longrightarrow>
   expiryAfterCreation (saveToStorage s)"
  unfolding expiryAfterCreation_def
  by (auto simp: saveToStorage_fields mapValues_def list_all_iff
        dest!: saveToStorage_items split: option.splits)

lemma expiry_update:
  assumes "expiryAfterCreation s"
    "list_all (\<lambda>p. createdAt (snd p) < expiresAt (snd p)) m"
  shows "expiryAfterCreation (saveToStorage (s\<lparr>urlEntries := m, shortCodeToId := idx\<rparr>))"
  using assms by (intro expiry_saveToStorage) (simp_all add: expiryAfterCreation_def)

lemma expiry_update':
  assumes "expiryAfterCreation s"
    "list_all (\<lambda>p. createdAt (snd p) < expiresAt (snd p)) m"
  shows "expiryAfterCreation (saveToStorage (s\<lparr>urlEntries := m\<rparr>))"
  using assms by (intro expiry_saveToStorage) (simp_all add: expiryAfterCreation_def)

lemma expiry_getUrlByShortCode:
  assumes "expiryAfterCreation s"
  shows "expiryAfterCreation (snd (getUrlByShortCode now code s))"
    and "fst (getUrlByShortCode now code s) = Some e \<Longrightarrow>
          createdAt e < expiresAt e \<and> snd (getUrlByShortCode now code s) = s"
proof -
  have g: "\<And>k v. mapGet (urlEntries s) k = Some v \<Longrightarrow> createdAt v < expiresAt v"
    using assms by (auto simp: expiryAfterCreation_def dest: list_all_mapGet)
  have a: "list_all (\<lambda>p. createdAt (snd p) < expiresAt (snd p)) (urlEntries s)"
    using assms by (simp add: expiryAfterCreation_def)
  show "expiryAfterCreation (snd (getUrlByShortCode now code s))"
    using assms
    by (auto simp: getUrlByShortCode_def Let_def split: option.splits
          intro!: expiry_update' list_all_mapSet a dest: g)
  show "fst (getUrlByShortCode now code s) = Some e \<Longrightarrow>
          createdAt e < expiresAt e \<and> snd (getUrlByShortCode now code s) = s"
    by (auto simp: getUrlByShortCode_def Let_def split: option.splits if_splits dest: g)
qed

lemma expiry_incrementClicks:
  assumes "expiryAfterCreation s"
  shows "expiryAfterCreation (snd (incrementClicks now code s))"
proof (cases "fst (getUrlByShortCode now code s)")
  case None
  then show ?thesis
    using expiry_getUrlByShortCode(1)[OF assms, of now code]
    by (cases "getUrlByShortCode now code s") (simp add: incrementClicks_def)
next
  case (Some e)
  from expiry_getUrlByShortCode(2)[OF assms Some]
  have e: "createdAt e < expiresAt e" and s: "snd (getUrlByShortCode now code s) = s" by auto
  with Some have r: "getUrlByShortCode now code s = (Some e, s)"
    by (cases "getUrlByShortCode now code s") simp
  have a: "list_all (\<lambda>p. createdAt (snd p) < expiresAt (snd p)) (urlEntries s)"
    using assms by (simp add: expiryAfterCreation_def)
  show ?thesis
    using assms e a
    by (auto simp: incrementClicks_def r Let_def split: option.splits
          intro!: expiry_update' list_all_mapSet)
qed

lemma expiry_deleteUrl:
  assumes "expiryAfterCreation s"
  shows "expiryAfterCreation (snd (deleteUrl i s))"
proof -
  have a: "list_all (\<lambda>p. createdAt (snd p) < expiresAt (snd p)) (urlEntries s)"
    using assms by (simp add: expiryAfterCreation_def)
  show ?thesis
    using assms a
    by (auto simp: deleteUrl_def split: option.splits intro!: expiry_update list_all_mapDelete)
qed

lemma expiry_cleanup:
  assumes "expiryAfterCreation s"
  shows "expiryAfterCreation (snd (cleanupExpiredUrls now s))"
proof -
  let ?s1 = "s\<lparr>urlEntries := markExpired now (urlEntries s)\<rparr>"
  let ?s2 = "removeExpired (expiredIds now (urlEntries s)) ?s1"
  have a: "list_all (\<lambda>p. createdAt (snd p) < expiresAt (snd p)) (urlEntries s)"
    using assms by (simp add: expiryAfterCreation_def)
  then have "list_all (\<lambda>p. createdAt (snd p) < expiresAt (snd p)) (markExpired now (urlEntries s))"
    by (auto simp: markExpired_def list_all_iff)
  with removeExpired_subset[of "expiredIds now (urlEntries s)" ?s1]
  have m: "list_all (\<lambda>p. createdAt (snd p) < expiresAt (snd p)) (urlEntries ?s2)"
    by (auto simp: list_all_iff)
  have st: "storage ?s2 = storage s" by (simp add: removeExpired_storage)
  from m st assms have 2: "expiryAfterCreation ?s2"
    by (simp add: expiryAfterCreation_def)
  from m st assms have 3: "expiryAfterCreation (saveToStorage ?s2)"
    by (intro expiry_saveToStorage) (simp_all add: expiryAfterCreation_def)
  from 2 3 show ?thesis by (auto simp: cleanupExpiredUrls_def Let_def)
qed

lemma expiry_newService:
  assumes "expiryAfterCreation s"
  shows "expiryAfterCreation (newService (storage s))"
  using assms newService_entries_all[of "\<lambda>e. createdAt e < expiresAt e" "storage s"]
  by (simp add: expiryAfterCreation_def newService_storage)

lemma expiry_storeEntry:
  assumes "expiryAfterCreation s" "storeEntry env request code s = Returns (resp, s')"
    "case req_validityMinutes request of None \<Rightarrow> True | Some v \<Rightarrow> 0 \<le> v"
  shows "expiryAfterCreation s'"
proof -
  from storeEntry_Returns[OF assms(2)] obtain e where
    e: "createdAt e = newDate env"
       "expiresAt e = newDate env +
          (case req_validityMinutes request of None \<Rightarrow> 30 | Some v \<Rightarrow> if v = 0 then 30 else v) * 60 * 1000"
    and s': "s' = saveToStorage (s\<lparr>urlEntries := mapSet (idE e) e (urlEntries s),
                      shortCodeToId := (shortCodeToId s)(code \<mapsto> idE e)\<rparr>)"
    by blast
  from e assms(3) have "createdAt e < expiresAt e"
    by (auto split: option.splits)
  with assms(1) show ?thesis unfolding s'
    by (intro expiry_update list_all_mapSet) (simp_all add: expiryAfterCreation_def)
qed

lemma expiry_createShortUrl:
  assumes "expiryAfterCreation s" "createShortUrl env request s = Returns (resp, s')"
    "case req_validityMinutes request of None \<Rightarrow> True | Some v \<Rightarrow> 0 \<le> v"
  shows "expiryAfterCreation s'"
  using createShortUrl_Returns_cases[OF assms(2)] assms(1,3)
  by (auto intro: expiry_storeEntry)

lemma expiry_step:
  assumes "expiryAfterCreation s" "step c s = Some s'" "nonNegativeValidity c"
  shows "expiryAfterCreation s'"
proof (cases c)
  case (Create env request)
  with assms show ?thesis
    by (auto split: outcome.splits intro: expiry_createShortUrl)
next
  case (Resolve now code)
  with assms show ?thesis by (auto intro: expiry_getUrlByShortCode(1))
next
  case (Click now code)
  with assms show ?thesis by (auto intro: expiry_incrementClicks)
next
  case (Delete i)
  with assms show ?thesis by (auto intro: expiry_deleteUrl)
next
  case (Sweep now)
  with assms show ?thesis by (auto intro: expiry_cleanup)
next
  case Restart
  with assms show ?thesis by (auto intro: expiry_newService)
next
  case (Quota r)
  with assms show ?thesis by (auto simp: expiryAfterCreation_def)
qed

lemma expiry_run:
  "expiryAfterCreation s \<Longrightarrow> run cs s = Some s' \<Longrightarrow> list_all nonNegativeValidity cs \<Longrightarrow>
     expiryAfterCreation s'"
proof (induction cs arbitrary: s)
  case Nil
  then show ?case by simp
next
  case (Cons c cs)
  then show ?case
    by (auto split: option.splits dest: expiry_step)
qed

lemma expiry_fresh: "expiryAfterCreation (newService emptyStorage)"
  by (simp add: expiryAfterCreation_def newService_def loadFromStorage_def emptyStorage_def)

section \<open>The sample creation\<close>

lemmas demo_eval =
  createShortUrl_def validateLongUrl_def validateShortCode_def storeEntry_def
  demoEnv_def demoRequest_def demoEmpty_def demoCreated_def demoEntry_def emptyStorage_def
  alnum_def validTime_def toString_def natToString.simps saveToStorage_def mapValues_def Let_def
  returnedEntry_def stateAfter_def

lemma demo_create:
  "createShortUrl demoEnv demoRequest demoEmpty =
     Returns (\<lparr>success = True, urlEntry = Some demoEntry, error = None\<rparr>, demoCreated)"
  by (simp add: createShortUrl_def validateLongUrl_def validateShortCode_def storeEntry_def
        demoEnv_def demoRequest_def demoEmpty_def demoCreated_def demoEntry_def emptyStorage_def
        alnum_def validTime_def toString_def natToString.simps saveToStorage_def mapValues_def
        Let_def)

section \<open>C1: resolution and expiry\<close>

text \<open>
  C1. For a code whose index entry leads to a stored entry, \<^verbatim>\<open>getUrlByShortCode\<close> at a
  clock reading past \<^verbatim>\<open>expiresAt\<close> returns not-found, leaves the entry stored with
  \<^verbatim>\<open>isValid = false\<close>, and calls \<^verbatim>\<open>saveToStorage\<close> once (the durable store then holds
  the updated entries unless it refuses the write); at any other clock reading it returns
  the entry and changes nothing. An entry created with one minute of validity resolves
  59 s after its creation and is not found 61 s after it.
\<close>

theorem getUrlByShortCode_expiry:
  "(shortCodeToId s code = Some urlId \<and> urlId \<noteq> [] \<and> mapGet (urlEntries s) urlId = Some e \<longrightarrow>
      (if now > expiresAt e
       then \<exists>s'. getUrlByShortCode now code s = (None, s')
              \<and> mapGet (urlEntries s') urlId = Some (e\<lparr>isValid := False\<rparr>)
              \<and> saveCalls s' = Suc (saveCalls s)
              \<and> (\<not> refuses (storage s) ''urlEntries'' \<longrightarrow>
                   item_urlEntries (storage s') = Some (mapValues (urlEntries s')))
       else getUrlByShortCode now code s = (Some e, s)))
   \<and> (createShortUrl env request s0 = Returns (resp, s1) \<and> urlEntry resp = Some e1
        \<and> req_validityMinutes request = Some 1 \<longrightarrow>
         getUrlByShortCode (createdAt e1 + 59000) (shortCode e1) s1 = (Some e1, s1)
         \<and> fst (getUrlByShortCode (createdAt e1 + 61000) (shortCode e1) s1) = None)"
proof (intro conjI impI)
  assume h: "shortCodeToId s code = Some urlId \<and> urlId \<noteq> [] \<and> mapGet (urlEntries s) urlId = Some e"
  show "if now > expiresAt e
       then \<exists>s'. getUrlByShortCode now code s = (None, s')
              \<and> mapGet (urlEntries s') urlId = Some (e\<lparr>isValid := False\<rparr>)
              \<and> saveCalls s' = Suc (saveCalls s)
              \<and> (\<not> refuses (storage s) ''urlEntries'' \<longrightarrow>
                   item_urlEntries (storage s') = Some (mapValues (urlEntries s')))
       else getUrlByShortCode now code s = (Some e, s)"
  proof (cases "now > expiresAt e")
    case True
    with h show ?thesis
      by (simp add: getUrlByShortCode_expired saveToStorage_fields saveToStorage_written
            mapGet_mapSet)
  next
    case False
    with h show ?thesis by (simp add: getUrlByShortCode_live)
  qed
next
  assume c: "createShortUrl env request s0 = Returns (resp, s1) \<and> urlEntry resp = Some e1
        \<and> req_validityMinutes request = Some 1"
  then have st: "storeEntry env request (shortCode e1) s0 = Returns (resp, s1)"
    using createShortUrl_success by blast
  from storeEntry_Returns[OF st] c
  have e1: "idE e1 = toString (dateNow env)" "expiresAt e1 = createdAt e1 + 60000"
    and s1: "s1 = saveToStorage (s0\<lparr>urlEntries := mapSet (idE e1) e1 (urlEntries s0),
                      shortCodeToId := (shortCodeToId s0)(shortCode e1 \<mapsto> idE e1)\<rparr>)"
    by auto
  have i: "shortCodeToId s1 (shortCode e1) = Some (idE e1)"
    and g: "mapGet (urlEntries s1) (idE e1) = Some e1"
    and n: "idE e1 \<noteq> []"
    by (simp_all add: s1 saveToStorage_fields mapGet_mapSet e1(1) toString_nonempty)
  show "getUrlByShortCode (createdAt e1 + 59000) (shortCode e1) s1 = (Some e1, s1)"
    using i g n e1(2) by (simp add: getUrlByShortCode_live)
  show "fst (getUrlByShortCode (createdAt e1 + 61000) (shortCode e1) s1) = None"
    using i g n e1(2) by (simp add: getUrlByShortCode_expired)
qed

theorem getUrlByShortCode_expiry_witness:
  "shortCodeToId demoCreated ''abc'' = Some ''1000''
   \<and> mapGet (urlEntries demoCreated) ''1000'' = Some demoEntry
   \<and> createShortUrl demoEnv demoRequest demoEmpty =
       Returns (\<lparr>success = True, urlEntry = Some demoEntry, error = None\<rparr>, demoCreated)
   \<and> getUrlByShortCode 60000 ''abc'' demoCreated = (Some demoEntry, demoCreated)
   \<and> fst (getUrlByShortCode 62000 ''abc'' demoCreated) = None"
proof -
  have h: "shortCodeToId demoCreated ''abc'' = Some ''1000''"
    "mapGet (urlEntries demoCreated) ''1000'' = Some demoEntry"
    "req_validityMinutes demoRequest = Some 1"
    by (simp_all add: demoCreated_def demoRequest_def)
  have t: "createdAt demoEntry = 1000" "shortCode demoEntry = ''abc''" "expiresAt demoEntry = 61000"
    by (simp_all add: demoEntry_def)
  from getUrlByShortCode_expiry[of demoCreated "''abc''" "''1000''" demoEntry 60000
      demoEnv demoRequest demoEmpty "\<lparr>success = True, urlEntry = Some demoEntry, error = None\<rparr>"
      demoCreated demoEntry] h demo_create t
  show ?thesis by simp
qed

section \<open>C2: click counting\<close>

text \<open>
  C2. When a code leads to a stored entry and none of the clock readings of \<open>N\<close>
  successive calls of \<^verbatim>\<open>incrementClicks\<close> is past its \<^verbatim>\<open>expiresAt\<close>, every call returns
  true and the entry's \<^verbatim>\<open>clicks\<close> has grown by exactly \<open>N\<close>. On an expired code the call
  returns false and every stored entry keeps its \<^verbatim>\<open>clicks\<close>; on a code that the index
  does not know (or that leads to no entry) it returns false and changes nothing.
\<close>

theorem incrementClicks_counts:
  "(shortCodeToId s code = Some urlId \<and> urlId \<noteq> [] \<and> mapGet (urlEntries s) urlId = Some e
      \<and> (\<forall>t\<in>set nows. \<not> t > expiresAt e) \<longrightarrow>
      (\<exists>s'. repeatIncrementClicks nows code s = (replicate (length nows) True, s')
         \<and> mapGet (urlEntries s') urlId = Some (e\<lparr>clicks := clicks e + length nows\<rparr>)))
   \<and> (shortCodeToId s2 code2 = Some urlId2 \<and> urlId2 \<noteq> [] \<and> mapGet (urlEntries s2) urlId2 = Some e2
        \<and> idE e2 = urlId2 \<and> now2 > expiresAt e2 \<longrightarrow>
        fst (incrementClicks now2 code2 s2) = False
        \<and> map (\<lambda>p. (fst p, clicks (snd p))) (urlEntries (snd (incrementClicks now2 code2 s2))) =
            map (\<lambda>p. (fst p, clicks (snd p))) (urlEntries s2))
   \<and> (shortCodeToId s3 code3 = None \<or> shortCodeToId s3 code3 = Some [] \<or>
        (\<exists>i. shortCodeToId s3 code3 = Some i \<and> mapGet (urlEntries s3) i = None) \<longrightarrow>
        incrementClicks now3 code3 s3 = (False, s3))"
proof (intro conjI impI)
  assume "shortCodeToId s code = Some urlId \<and> urlId \<noteq> [] \<and> mapGet (urlEntries s) urlId = Some e
      \<and> (\<forall>t\<in>set nows. \<not> t > expiresAt e)"
  then show "\<exists>s'. repeatIncrementClicks nows code s = (replicate (length nows) True, s')
         \<and> mapGet (urlEntries s') urlId = Some (e\<lparr>clicks := clicks e + length nows\<rparr>)"
    using repeatIncrementClicks_live[of s code urlId e nows] by blast
next
  assume h: "shortCodeToId s2 code2 = Some urlId2 \<and> urlId2 \<noteq> [] \<and> mapGet (urlEntries s2) urlId2 = Some e2
        \<and> idE e2 = urlId2 \<and> now2 > expiresAt e2"
  then have r: "incrementClicks now2 code2 s2 =
      (False, saveToStorage (s2\<lparr>urlEntries := mapSet urlId2 (e2\<lparr>isValid := False\<rparr>) (urlEntries s2)\<rparr>))"
    by (simp add: incrementClicks_expired)
  then show "fst (incrementClicks now2 code2 s2) = False" by simp
  from h have "map (\<lambda>p. (fst p, clicks (snd p))) (mapSet urlId2 (e2\<lparr>isValid := False\<rparr>) (urlEntries s2)) =
      map (\<lambda>p. (fst p, clicks (snd p))) (urlEntries s2)"
    by (intro mapSet_same_key_map[where e=e2]) simp_all
  with r show "map (\<lambda>p. (fst p, clicks (snd p))) (urlEntries (snd (incrementClicks now2 code2 s2))) =
            map (\<lambda>p. (fst p, clicks (snd p))) (urlEntries s2)"
    by (simp add: saveToStorage_fields)
next
  assume "shortCodeToId s3 code3 = None \<or> shortCodeToId s3 code3 = Some [] \<or>
        (\<exists>i. shortCodeToId s3 code3 = Some i \<and> mapGet (urlEntries s3) i = None)"
  then show "incrementClicks now3 code3 s3 = (False, s3)"
    by (rule incrementClicks_unknown)
qed

theorem incrementClicks_counts_witness:
  "shortCodeToId demoTwo ''xyz99'' = Some ''2000''
   \<and> mapGet (urlEntries demoTwo) ''2000'' = Some demoEntry2
   \<and> \<not> 3000 > expiresAt demoEntry2 \<and> \<not> 4000 > expiresAt demoEntry2
   \<and> \<not> 5000 > expiresAt demoEntry2
   \<and> shortCodeToId demoTwo ''abc'' = Some ''1000''
   \<and> mapGet (urlEntries demoTwo) ''1000'' = Some demoEntry
   \<and> 70000 > expiresAt demoEntry
   \<and> shortCodeToId demoTwo ''nope'' = None
   \<and> (\<exists>s'. repeatIncrementClicks [3000, 4000, 5000] ''xyz99'' demoTwo = ([True, True, True], s')
         \<and> mapGet (urlEntries s') ''2000'' = Some (demoEntry2\<lparr>clicks := 6\<rparr>))
   \<and> fst (incrementClicks 70000 ''abc'' demoTwo) = False
   \<and> map (\<lambda>p. (fst p, clicks (snd p))) (urlEntries (snd (incrementClicks 70000 ''abc'' demoTwo))) =
        [(''1000'', 0), (''2000'', 3)]
   \<and> incrementClicks 70000 ''nope'' demoTwo = (False, demoTwo)"
proof -
  have h: "shortCodeToId demoTwo ''xyz99'' = Some ''2000''"
    "mapGet (urlEntries demoTwo) ''2000'' = Some demoEntry2"
    "\<forall>t\<in>set [3000, 4000, 5000]. \<not> t > expiresAt demoEntry2"
    "shortCodeToId demoTwo ''abc'' = Some ''1000''"
    "mapGet (urlEntries demoTwo) ''1000'' = Some demoEntry"
    "70000 > expiresAt demoEntry" "idE demoEntry = ''1000''"
    "shortCodeToId demoTwo ''nope'' = None"
    "clicks demoEntry2 = 3" "expiresAt demoEntry2 = 1802000"
    "map (\<lambda>p. (fst p, clicks (snd p))) (urlEntries demoTwo) = [(''1000'', 0), (''2000'', 3)]"
    by (simp_all add: demoTwo_def demoEntry_def demoEntry2_def)
  from incrementClicks_counts[of demoTwo "''xyz99''" "''2000''" demoEntry2 "[3000, 4000, 5000]"
      demoTwo "''abc''" "''1000''" demoEntry 70000 demoTwo "''nope''" 70000] h
  show ?thesis by simp
qed

section \<open>C3: the expiry sweep\<close>

text \<open>
  C3 as stated fails: \<^verbatim>\<open>cleanupExpiredUrls\<close> reads the clock at every call, so a second
  sweep in succession need not return 0. With one entry that expires at 61000, a sweep at
  clock reading 61000 removes nothing and the next one, a millisecond later, removes it and
  returns 1.
\<close>

theorem cleanupExpiredUrls_later_counterexample:
  "fst (cleanupExpiredUrls 61000 demoCreated) = 0
   \<and> snd (cleanupExpiredUrls 61000 demoCreated) = demoCreated
   \<and> fst (cleanupExpiredUrls 61001 (snd (cleanupExpiredUrls 61000 demoCreated))) = 1"
  by (simp add: cleanupExpiredUrls_def expiredIds_def markExpired_def demoCreated_def
        demoEntry_def Let_def)

text \<open>
  C3, amended. \<^verbatim>\<open>cleanupExpiredUrls\<close> at clock reading \<open>now\<close> keeps exactly the entries
  for which \<^verbatim>\<open>expiresAt < now\<close> fails. Every expired entry is gone from \<^verbatim>\<open>urlEntries\<close>
  and its code from \<^verbatim>\<open>shortCodeToId\<close>, and the objects the sweep dropped are the expired
  entries with \<^verbatim>\<open>isValid = false\<close>, in the order of the map. The number returned is the
  number of entries removed. A second sweep at the same clock reading returns 0 and changes
  nothing; a second sweep at the reading \<open>later\<close> returns the number of entries whose
  \<^verbatim>\<open>expiresAt\<close> is at least \<open>now\<close> and below \<open>later\<close>.
\<close>

theorem cleanupExpiredUrls_sweep:
  "distinct (map fst (urlEntries s)) \<longrightarrow>
     (\<exists>n s'. cleanupExpiredUrls now s = (n, s')
        \<and> urlEntries s' = filter (\<lambda>p. \<not> expiresAt (snd p) < now) (urlEntries s)
        \<and> (\<forall>p\<in>set (urlEntries s). expiresAt (snd p) < now \<longrightarrow>
              mapGet (urlEntries s') (fst p) = None
              \<and> shortCodeToId s' (shortCode (snd p)) = None
              \<and> (snd p)\<lparr>isValid := False\<rparr> \<in> set (swept s'))
        \<and> swept s' = swept s @ map (\<lambda>p. (snd p)\<lparr>isValid := False\<rparr>)
                                  (filter (\<lambda>p. expiresAt (snd p) < now) (urlEntries s))
        \<and> n = length (filter (\<lambda>p. expiresAt (snd p) < now) (urlEntries s))
        \<and> n = length (urlEntries s) - length (urlEntries s')
        \<and> cleanupExpiredUrls now s' = (0, s')
        \<and> fst (cleanupExpiredUrls later s') =
            length (filter (\<lambda>p. \<not> expiresAt (snd p) < now \<and> expiresAt (snd p) < later)
              (urlEntries s)))"
proof
  assume d: "distinct (map fst (urlEntries s))"
  let ?n = "fst (cleanupExpiredUrls now s)"
  let ?s' = "snd (cleanupExpiredUrls now s)"
  have ent: "urlEntries ?s' = filter (\<lambda>p. \<not> expiresAt (snd p) < now) (urlEntries s)"
    using d by (rule cleanup_entries)
  have gone: "mapGet (urlEntries ?s') (fst p) = None"
    if "p \<in> set (urlEntries s)" "expiresAt (snd p) < now" for p
  proof -
    have "fst p \<notin> fst ` set (filter (\<lambda>p. \<not> expiresAt (snd p) < now) (urlEntries s))"
    proof
      assume "fst p \<in> fst ` set (filter (\<lambda>p. \<not> expiresAt (snd p) < now) (urlEntries s))"
      then obtain q where q: "q \<in> set (urlEntries s)" "\<not> expiresAt (snd q) < now" "fst q = fst p"
        by auto
      with d that(1) have "q = p" by (metis eq_key_imp_eq_value prod.collapse)
      with q that(2) show False by simp
    qed
    then show ?thesis by (simp add: ent mapGet_None_iff)
  qed
  have sw: "swept ?s' = swept s @ map (\<lambda>p. (snd p)\<lparr>isValid := False\<rparr>)
                                  (filter (\<lambda>p. expiresAt (snd p) < now) (urlEntries s))"
    using d by (rule cleanup_swept)
  have marked: "(snd p)\<lparr>isValid := False\<rparr> \<in> set (swept ?s')"
    if "p \<in> set (urlEntries s)" "expiresAt (snd p) < now" for p
    using that by (force simp: sw)
  have cnt: "?n = length (filter (\<lambda>p. expiresAt (snd p) < now) (urlEntries s))"
    by (rule cleanup_count)
  have "length (urlEntries s) =
      length (filter (\<lambda>p. expiresAt (snd p) < now) (urlEntries s)) +
      length (filter (\<lambda>p. \<not> expiresAt (snd p) < now) (urlEntries s))"
    by (rule sum_length_filter_compl[symmetric])
  with cnt ent have diff: "?n = length (urlEntries s) - length (urlEntries ?s')" by simp
  have twice: "cleanupExpiredUrls now ?s' = (0, ?s')"
    using d by (rule cleanup_twice)
  have again: "fst (cleanupExpiredUrls later ?s') =
      length (filter (\<lambda>p. \<not> expiresAt (snd p) < now \<and> expiresAt (snd p) < later) (urlEntries s))"
    by (simp add: cleanup_count ent)
  show "\<exists>n s'. cleanupExpiredUrls now s = (n, s')
        \<and> urlEntries s' = filter (\<lambda>p. \<not> expiresAt (snd p) < now) (urlEntries s)
        \<and> (\<forall>p\<in>set (urlEntries s). expiresAt (snd p) < now \<longrightarrow>
              mapGet (urlEntries s') (fst p) = None
              \<and> shortCodeToId s' (shortCode (snd p)) = None
              \<and> (snd p)\<lparr>isValid := False\<rparr> \<in> set (swept s'))
        \<and> swept s' = swept s @ map (\<lambda>p. (snd p)\<lparr>isValid := False\<rparr>)
                                  (filter (\<lambda>p. expiresAt (snd p) < now) (urlEntries s))
        \<and> n = length (filter (\<lambda>p. expiresAt (snd p) < now) (urlEntries s))
        \<and> n = length (urlEntries s) - length (urlEntries s')
        \<and> cleanupExpiredUrls now s' = (0, s')
        \<and> fst (cleanupExpiredUrls later s') =
            length (filter (\<lambda>p. \<not> expiresAt (snd p) < now \<and> expiresAt (snd p) < later)
              (urlEntries s))"
  proof (intro exI[of _ ?n] exI[of _ ?s'] conjI ballI impI)
    show "cleanupExpiredUrls now s = (?n, ?s')" by simp
  qed (use ent gone marked sw cnt diff twice again cleanup_index[OF d] in simp_all)
qed

theorem cleanupExpiredUrls_sweep_witness:
  "distinct (map fst (urlEntries demoTwo))
   \<and> (\<exists>s'. cleanupExpiredUrls 70000 demoTwo = (1, s')
         \<and> urlEntries s' = [(''2000'', demoEntry2)]
         \<and> shortCodeToId s' ''abc'' = None
         \<and> swept s' = [demoEntry\<lparr>isValid := False\<rparr>]
         \<and> cleanupExpiredUrls 70000 s' = (0, s')
         \<and> fst (cleanupExpiredUrls 1802001 s') = 1)"
proof -
  have h: "distinct (map fst (urlEntries demoTwo))"
    "filter (\<lambda>p. \<not> expiresAt (snd p) < 70000) (urlEntries demoTwo) = [(''2000'', demoEntry2)]"
    "filter (\<lambda>p. expiresAt (snd p) < 70000) (urlEntries demoTwo) = [(''1000'', demoEntry)]"
    "filter (\<lambda>p. \<not> expiresAt (snd p) < 70000 \<and> expiresAt (snd p) < 1802001) (urlEntries demoTwo)
       = [(''2000'', demoEntry2)]"
    "(''1000'', demoEntry) \<in> set (urlEntries demoTwo)"
    "expiresAt demoEntry < 70000" "shortCode demoEntry = ''abc''" "swept demoTwo = []"
    by (simp_all add: demoTwo_def demoEntry_def demoEntry2_def)
  from cleanupExpiredUrls_sweep[of demoTwo 70000 1802001] h(1)
  obtain n s' where r: "cleanupExpiredUrls 70000 demoTwo = (n, s')"
    "urlEntries s' = filter (\<lambda>p. \<not> expiresAt (snd p) < 70000) (urlEntries demoTwo)"
    "\<forall>p\<in>set (urlEntries demoTwo). expiresAt (snd p) < 70000 \<longrightarrow>
              mapGet (urlEntries s') (fst p) = None
              \<and> shortCodeToId s' (shortCode (snd p)) = None
              \<and> (snd p)\<lparr>isValid := False\<rparr> \<in> set (swept s')"
    "swept s' = swept demoTwo @ map (\<lambda>p. (snd p)\<lparr>isValid := False\<rparr>)
                                  (filter (\<lambda>p. expiresAt (snd p) < 70000) (urlEntries demoTwo))"
    "n = length (filter (\<lambda>p. expiresAt (snd p) < 70000) (urlEntries demoTwo))"
    "cleanupExpiredUrls 70000 s' = (0, s')"
    "fst (cleanupExpiredUrls 1802001 s') =
            length (filter (\<lambda>p. \<not> expiresAt (snd p) < 70000 \<and> expiresAt (snd p) < 1802001)
              (urlEntries demoTwo))"
    by blast
  from r(3) h(5) h(6) h(7) have "shortCodeToId s' ''abc'' = None" by fastforce
  with r h show ?thesis by simp
qed

section \<open>C4: expiry comes after creation\<close>

text \<open>
  C4 as stated fails: a creation at clock reading 1000 with \<^verbatim>\<open>validityMinutes = -5\<close>
  succeeds, and its entry expires at -299000, before it was created.
\<close>

theorem createShortUrl_negative_validity_counterexample:
  "req_validityMinutes demoRequestNegative = Some (- 5)
   \<and> returnedEntry (createShortUrl demoEnv demoRequestNegative demoEmpty) = Some demoEntryNegative
   \<and> \<not> expiresAt demoEntryNegative > createdAt demoEntryNegative"
  by (simp add: demo_eval demoRequestNegative_def demoEntryNegative_def)

text \<open>
  C4, amended. When \<^verbatim>\<open>validityMinutes\<close> is absent, zero or a positive whole number, the
  entry of a successful \<^verbatim>\<open>createShortUrl\<close> has \<^verbatim>\<open>expiresAt\<close> after \<^verbatim>\<open>createdAt\<close>; and so
  has every entry of a store reached from a fresh service on an empty durable store by any
  sequence of calls (creations with such validity periods, lookups, clicks, deletions,
  sweeps, restarts, and changes of what the durable store refuses).
\<close>

theorem expiresAt_after_createdAt:
  "(createShortUrl env request s = Returns (resp, s') \<and> urlEntry resp = Some e
      \<and> (case req_validityMinutes request of None \<Rightarrow> True | Some v \<Rightarrow> 0 \<le> v) \<longrightarrow>
      createdAt e < expiresAt e)
   \<and> (run cs (newService emptyStorage) = Some s2 \<and> list_all nonNegativeValidity cs \<longrightarrow>
        list_all (\<lambda>p. createdAt (snd p) < expiresAt (snd p)) (urlEntries s2))"
proof (intro conjI impI)
  assume h: "createShortUrl env request s = Returns (resp, s') \<and> urlEntry resp = Some e
      \<and> (case req_validityMinutes request of None \<Rightarrow> True | Some v \<Rightarrow> 0 \<le> v)"
  then have "storeEntry env request (shortCode e) s = Returns (resp, s')"
    using createShortUrl_success by blast
  with h show "createdAt e < expiresAt e"
    by (blast intro: storeEntry_expiry_after)
next
  assume "run cs (newService emptyStorage) = Some s2 \<and> list_all nonNegativeValidity cs"
  then have "expiryAfterCreation s2"
    using expiry_run[OF expiry_fresh] by blast
  then show "list_all (\<lambda>p. createdAt (snd p) < expiresAt (snd p)) (urlEntries s2)"
    by (simp add: expiryAfterCreation_def)
qed

theorem expiresAt_after_createdAt_witness:
  "createShortUrl demoEnv demoRequest demoEmpty =
      Returns (\<lparr>success = True, urlEntry = Some demoEntry, error = None\<rparr>, demoCreated)
   \<and> run [Create demoEnv demoRequest] (newService emptyStorage) = Some demoCreated
   \<and> list_all nonNegativeValidity [Create demoEnv demoRequest]
   \<and> createdAt demoEntry < expiresAt demoEntry
   \<and> list_all (\<lambda>p. createdAt (snd p) < expiresAt (snd p)) (urlEntries demoCreated)"
proof -
  have h: "run [Create demoEnv demoRequest] (newService emptyStorage) = Some demoCreated"
    by (simp add: fresh_service demo_create)
  have h2: "list_all nonNegativeValidity [Create demoEnv demoRequest]"
    "case req_validityMinutes demoRequest of None \<Rightarrow> True | Some v \<Rightarrow> 0 \<le> v"
    by (simp_all add: demoRequest_def)
  from expiresAt_after_createdAt[of demoEnv demoRequest demoEmpty
      "\<lparr>success = True, urlEntry = Some demoEntry, error = None\<rparr>" demoCreated demoEntry
      "[Create demoEnv demoRequest]" demoCreated] h h2 demo_create
  show ?thesis by simp
qed

section \<open>C5: the fields of a created entry\<close>

text \<open>
  C5 as stated fails: a caller that supplies \<^verbatim>\<open>validityMinutes = 0\<close> gets an entry that
  expires 30 minutes after its creation, not 0 minutes after it.
\<close>

theorem createShortUrl_zero_validity_counterexample:
  "req_validityMinutes demoRequestZero = Some 0
   \<and> returnedEntry (createShortUrl demoEnv demoRequestZero demoEmpty) = Some demoEntryZero
   \<and> expiresAt demoEntryZero \<noteq> createdAt demoEntryZero + 0 * 60 * 1000
   \<and> expiresAt demoEntryZero = createdAt demoEntryZero + 30 * 60 * 1000"
  by (simp add: demo_eval demoRequestZero_def demoEntryZero_def)

text \<open>
  C5, amended. The entry of a successful \<^verbatim>\<open>createShortUrl\<close> is created at the clock
  reading, with \<^verbatim>\<open>clicks = 0\<close> and \<^verbatim>\<open>isValid = true\<close>; it expires \<^verbatim>\<open>validityMinutes\<close>
  minutes after its creation when the caller supplies a whole number other than 0, and
  30 minutes after it when the value is absent or 0.
\<close>

theorem createShortUrl_entry_fields:
  "createShortUrl env request s = Returns (resp, s') \<and> success resp \<longrightarrow>
     (\<exists>e. urlEntry resp = Some e \<and> createdAt e = newDate env \<and> clicks e = 0 \<and> isValid e
        \<and> (case req_validityMinutes request of
              None \<Rightarrow> expiresAt e = createdAt e + 30 * 60 * 1000
            | Some v \<Rightarrow>
                if v = 0 then expiresAt e = createdAt e + 30 * 60 * 1000
                else expiresAt e = createdAt e + v * 60 * 1000))"
proof
  assume h: "createShortUrl env request s = Returns (resp, s') \<and> success resp"
  with createShortUrl_Returns_cases[of env request s resp s']
  obtain c where "storeEntry env request c s = Returns (resp, s')" by auto
  from storeEntry_Returns[OF this]
  show "\<exists>e. urlEntry resp = Some e \<and> createdAt e = newDate env \<and> clicks e = 0 \<and> isValid e
        \<and> (case req_validityMinutes request of
              None \<Rightarrow> expiresAt e = createdAt e + 30 * 60 * 1000
            | Some v \<Rightarrow>
                if v = 0 then expiresAt e = createdAt e + 30 * 60 * 1000
                else expiresAt e = createdAt e + v * 60 * 1000)"
    by (auto split: option.splits)
qed

theorem createShortUrl_entry_fields_witness:
  "createShortUrl demoEnv demoRequest demoEmpty =
      Returns (\<lparr>success = True, urlEntry = Some demoEntry, error = None\<rparr>, demoCreated)
   \<and> req_validityMinutes demoRequest = Some 1
   \<and> expiresAt demoEntry = createdAt demoEntry + 1 * 60 * 1000
   \<and> clicks demoEntry = 0 \<and> isValid demoEntry"
proof -
  have h: "req_validityMinutes demoRequest = Some 1"
    by (simp add: demoRequest_def)
  from createShortUrl_entry_fields[of demoEnv demoRequest demoEmpty
      "\<lparr>success = True, urlEntry = Some demoEntry, error = None\<rparr>" demoCreated] h demo_create
  show ?thesis by simp
qed

section \<open>C6: ids of created entries\<close>

text \<open>
  C6. The id of an entry is the decimal numeral of \<^verbatim>\<open>Date.now()\<close>, and both maps are
  written with \<^verbatim>\<open>set\<close>, which replaces. Two creations at the same clock reading: both
  report success, both entries carry the id \<^verbatim>\<open>1000\<close>, the second takes the place of the
  first in \<^verbatim>\<open>urlEntries\<close>, and the code of the first, still in the index, now leads to
  the entry of the second.
\<close>

theorem createShortUrl_same_id_collision:
  "createShortUrl demoEnv demoRequest demoEmpty =
     Returns (\<lparr>success = True, urlEntry = Some demoEntry, error = None\<rparr>, demoCreated)
   \<and> createShortUrl demoEnv demoRequestB demoCreated =
     Returns (\<lparr>success = True, urlEntry = Some demoEntryB, error = None\<rparr>, demoCollided)
   \<and> dateNow demoEnv = 1000
   \<and> idE demoEntry = ''1000'' \<and> idE demoEntryB = ''1000''
   \<and> longUrl demoEntry \<noteq> longUrl demoEntryB
   \<and> mapGet (urlEntries demoCreated) ''1000'' = Some demoEntry
   \<and> mapGet (urlEntries demoCollided) ''1000'' = Some demoEntryB
   \<and> length (urlEntries demoCollided) = 1
   \<and> getUrlByShortCode 2000 ''abc'' demoCollided = (Some demoEntryB, demoCollided)"
  by (simp add: demo_eval demoRequestB_def demoEntryB_def demoCollided_def
        getUrlByShortCode_def)

section \<open>C7: generated codes\<close>

text \<open>
  C7 as stated fails: with a valid long URL and no custom code the call need not succeed.
  When every draw gives a code that is taken, the call never returns; when the validity
  period puts the expiry beyond the range of \<^verbatim>\<open>Date\<close>, it throws.
\<close>

theorem createShortUrl_generation_counterexample:
  "validateLongUrl demoEnvStuck (req_longUrl demoRequestPlain) = Valid
   \<and> req_customShortCode demoRequestPlain = None
   \<and> createShortUrl demoEnvStuck demoRequestPlain demoTaken = Diverges
   \<and> validateLongUrl demoEnv (req_longUrl demoRequestHuge) = Valid
   \<and> req_customShortCode demoRequestHuge = None
   \<and> createShortUrl demoEnv demoRequestHuge demoEmpty = Throws ''RangeError''"
proof -
  have "generateShortCode (\<lambda>k. 0) 0 [''AAAAAAAA'' \<mapsto> ''1''] = None"
    by (rule generateShortCode_stuck) (simp add: drawCode_stuck)
  then have 1: "createShortUrl demoEnvStuck demoRequestPlain demoTaken = Diverges"
    by (simp add: createShortUrl_def generated_def validateLongUrl_def demoEnvStuck_def
          demoEnv_def demoRequestPlain_def demoTaken_def demoEmpty_def)
  have "generateShortCode (\<lambda>k. k mod 62) 0 Map.empty = Some ''ABCDEFGH''"
    by (subst generateShortCode.simps) (simp add: drawCode_demo)
  then have 2: "createShortUrl demoEnv demoRequestHuge demoEmpty = Throws ''RangeError''"
    by (simp add: createShortUrl_def generated_def validateLongUrl_def storeEntry_def
          validTime_def demoEnv_def demoRequestHuge_def demoRequestPlain_def demoEmpty_def)
  show ?thesis using 1 2
    by (simp add: validateLongUrl_def demoEnvStuck_def demoEnv_def demoRequestPlain_def
          demoRequestHuge_def)
qed

text \<open>
  C7, amended. For a valid long URL and no custom code (absent or empty), when every draw
  is an index into the alphabet, some round of eight draws gives a code that is not in the
  index, and the expiry is a valid time value, \<^verbatim>\<open>createShortUrl\<close> succeeds; the code of
  its entry has length 8, consists of characters of the 62-character alphabet, was not in
  \<^verbatim>\<open>shortCodeToId\<close> before the call and leads to the entry's id after it.
\<close>

theorem createShortUrl_generated_code:
  "validateLongUrl env (req_longUrl request) = Valid
   \<and> (req_customShortCode request = None \<or> req_customShortCode request = Some [])
   \<and> (\<forall>k. random env k < 62)
   \<and> shortCodeToId s (drawCode (random env) (8 * n)) = None
   \<and> validTime (newDate env +
        (case req_validityMinutes request of None \<Rightarrow> 30 | Some v \<Rightarrow> if v = 0 then 30 else v)
          * 60 * 1000) \<longrightarrow>
   (\<exists>resp s' e. createShortUrl env request s = Returns (resp, s') \<and> success resp
      \<and> urlEntry resp = Some e
      \<and> length (shortCode e) = 8 \<and> list_all alnum (shortCode e)
      \<and> set (shortCode e) \<subseteq> set chars
      \<and> shortCodeToId s (shortCode e) = None
      \<and> shortCodeToId s' (shortCode e) = Some (idE e))"
proof
  assume h: "validateLongUrl env (req_longUrl request) = Valid
   \<and> (req_customShortCode request = None \<or> req_customShortCode request = Some [])
   \<and> (\<forall>k. random env k < 62)
   \<and> shortCodeToId s (drawCode (random env) (8 * n)) = None
   \<and> validTime (newDate env +
        (case req_validityMinutes request of None \<Rightarrow> 30 | Some v \<Rightarrow> if v = 0 then 30 else v)
          * 60 * 1000)"
  then have "shortCodeToId s (drawCode (random env) (0 + 8 * n)) = None" by simp
  from generateShortCode_returns[of "shortCodeToId s" "random env" 0 n, OF this]
  obtain c where c: "generateShortCode (random env) 0 (shortCodeToId s) = Some c" by blast
  from generateShortCode_drawn[OF c] obtain k where "c = drawCode (random env) (0 + 8 * k)"
    by blast
  with h drawCode_shape[of "random env" "0 + 8 * k"]
  have shape: "length c = 8" "set c \<subseteq> set chars" by auto
  then have al: "list_all alnum c" by (auto simp: list_all_iff intro: alnum_chars)
  have unused: "shortCodeToId s c = None" using c by (rule generateShortCode_unused)
  from h have g: "createShortUrl env request s = storeEntry env request c s"
    by (auto simp: createShortUrl_def generated_def c)
  from h storeEntry_succeeds[of env request c s]
  obtain resp s' e where "storeEntry env request c s = Returns (resp, s')" "success resp"
    "urlEntry resp = Some e" "shortCode e = c" "shortCodeToId s' c = Some (idE e)"
    by blast
  with g shape al unused
  show "\<exists>resp s' e. createShortUrl env request s = Returns (resp, s') \<and> success resp
      \<and> urlEntry resp = Some e
      \<and> length (shortCode e) = 8 \<and> list_all alnum (shortCode e)
      \<and> set (shortCode e) \<subseteq> set chars
      \<and> shortCodeToId s (shortCode e) = None
      \<and> shortCodeToId s' (shortCode e) = Some (idE e)"
    by auto
qed

theorem createShortUrl_generated_code_witness:
  "validateLongUrl demoEnv (req_longUrl demoRequestPlain) = Valid
   \<and> req_customShortCode demoRequestPlain = None
   \<and> shortCodeToId demoEmpty (drawCode (random demoEnv) (8 * 0)) = None
   \<and> validTime (newDate demoEnv + 30 * 60 * 1000)
   \<and> returnedEntry (createShortUrl demoEnv demoRequestPlain demoEmpty) = Some demoEntryPlain
   \<and> length (shortCode demoEntryPlain) = 8 \<and> list_all alnum (shortCode demoEntryPlain)"
proof -
  have r: "\<forall>k. random demoEnv k < 62" by (simp add: demoEnv_def)
  have h: "validateLongUrl demoEnv (req_longUrl demoRequestPlain) = Valid"
    "req_customShortCode demoRequestPlain = None"
    "req_validityMinutes demoRequestPlain = None"
    "shortCodeToId demoEmpty (drawCode (random demoEnv) (8 * 0)) = None"
    "validTime (newDate demoEnv + 30 * 60 * 1000)"
    by (simp_all add: validateLongUrl_def demoEnv_def demoRequestPlain_def demoEmpty_def
          validTime_def)
  have "generateShortCode (\<lambda>k. k mod 62) 0 Map.empty = Some ''ABCDEFGH''"
    by (subst generateShortCode.simps) (simp add: drawCode_demo)
  then have e: "returnedEntry (createShortUrl demoEnv demoRequestPlain demoEmpty) = Some demoEntryPlain"
    by (simp add: createShortUrl_def generated_def validateLongUrl_def storeEntry_def
          validTime_def demoEnv_def demoRequestPlain_def demoEmpty_def returnedEntry_def
          demoEntryPlain_def toString_def natToString.simps Let_def)
  from createShortUrl_generated_code[of demoEnv demoRequestPlain demoEmpty 0] r h
  obtain resp s' e' where "createShortUrl demoEnv demoRequestPlain demoEmpty = Returns (resp, s')"
    "success resp" "urlEntry resp = Some e'" "length (shortCode e') = 8"
    "list_all alnum (shortCode e')"
    by auto
  with e h show ?thesis by (auto simp: returnedEntry_def)
qed

section \<open>C8: saving and loading\<close>

text \<open>
  C8. When the durable store accepts the two writes of \<^verbatim>\<open>saveToStorage\<close>, a service
  started from it afterwards holds the same \<^verbatim>\<open>urlEntries\<close>, in the same order: the same
  ids, codes and click counts; and every code of the index leads to the same id as before.
\<close>

theorem save_load_roundtrip:
  "storedUnderOwnId (urlEntries s) \<and> \<not> refuses (storage s) ''urlEntries''
     \<and> \<not> refuses (storage s) ''shortCodeMappings'' \<longrightarrow>
   urlEntries (newService (storage (saveToStorage s))) = urlEntries s
   \<and> map (\<lambda>e. (idE e, shortCode e, clicks e))
        (mapValues (urlEntries (newService (storage (saveToStorage s))))) =
      map (\<lambda>e. (idE e, shortCode e, clicks e)) (mapValues (urlEntries s))
   \<and> (\<forall>c. shortCodeToId s c \<noteq> None \<longrightarrow>
         shortCodeToId (newService (storage (saveToStorage s))) c = shortCodeToId s c)"
  by (simp add: roundtrip_entries roundtrip_index)

theorem save_load_roundtrip_witness:
  "storedUnderOwnId (urlEntries demoTwo) \<and> \<not> refuses (storage demoTwo) ''urlEntries''
   \<and> \<not> refuses (storage demoTwo) ''shortCodeMappings''
   \<and> urlEntries (newService (storage (saveToStorage demoTwo))) =
        [(''1000'', demoEntry), (''2000'', demoEntry2)]
   \<and> map (\<lambda>e. (idE e, shortCode e, clicks e))
        (mapValues (urlEntries (newService (storage (saveToStorage demoTwo))))) =
      [(''1000'', ''abc'', 0), (''2000'', ''xyz99'', 3)]
   \<and> shortCodeToId (newService (storage (saveToStorage demoTwo))) ''abc'' = Some ''1000''"
proof -
  have h: "storedUnderOwnId (urlEntries demoTwo)" "\<not> refuses (storage demoTwo) ''urlEntries''"
    "\<not> refuses (storage demoTwo) ''shortCodeMappings''"
    "urlEntries demoTwo = [(''1000'', demoEntry), (''2000'', demoEntry2)]"
    "shortCodeToId demoTwo ''abc'' = Some ''1000''"
    by (simp_all add: storedUnderOwnId_def demoTwo_def demoEntry_def demoEntry2_def
          emptyStorage_def)
  have v: "map (\<lambda>e. (idE e, shortCode e, clicks e)) (mapValues [(''1000'', demoEntry), (''2000'', demoEntry2)])
      = [(''1000'', ''abc'', 0), (''2000'', ''xyz99'', 3)]"
    by (simp add: mapValues_def demoEntry_def demoEntry2_def)
  from save_load_roundtrip[of demoTwo] h v show ?thesis by simp
qed

section \<open>C9: deletion\<close>

text \<open>
  C9. \<^verbatim>\<open>deleteUrl\<close> on an id that is not stored returns false and leaves the whole
  state, the durable store and the count of saves included, as it was. On a stored id it
  returns true, removes the id from \<^verbatim>\<open>urlEntries\<close> and the entry's code from
  \<^verbatim>\<open>shortCodeToId\<close>, and leaves every other mapping alone.
\<close>

theorem deleteUrl_effects:
  "(mapGet (urlEntries s) i = None \<longrightarrow> deleteUrl i s = (False, s))
   \<and> (distinct (map fst (urlEntries s2)) \<and> mapGet (urlEntries s2) i2 = Some e \<longrightarrow>
        (\<exists>s'. deleteUrl i2 s2 = (True, s')
           \<and> mapGet (urlEntries s') i2 = None
           \<and> shortCodeToId s' (shortCode e) = None
           \<and> (\<forall>k. k \<noteq> i2 \<longrightarrow> mapGet (urlEntries s') k = mapGet (urlEntries s2) k)
           \<and> (\<forall>c. c \<noteq> shortCode e \<longrightarrow> shortCodeToId s' c = shortCodeToId s2 c)
           \<and> saveCalls s' = Suc (saveCalls s2)))"
proof (intro conjI impI)
  assume "mapGet (urlEntries s) i = None"
  then show "deleteUrl i s = (False, s)" by (rule deleteUrl_absent)
next
  assume h: "distinct (map fst (urlEntries s2)) \<and> mapGet (urlEntries s2) i2 = Some e"
  then show "\<exists>s'. deleteUrl i2 s2 = (True, s')
           \<and> mapGet (urlEntries s') i2 = None
           \<and> shortCodeToId s' (shortCode e) = None
           \<and> (\<forall>k. k \<noteq> i2 \<longrightarrow> mapGet (urlEntries s') k = mapGet (urlEntries s2) k)
           \<and> (\<forall>c. c \<noteq> shortCode e \<longrightarrow> shortCodeToId s' c = shortCodeToId s2 c)
           \<and> saveCalls s' = Suc (saveCalls s2)"
    by (simp add: deleteUrl_present saveToStorage_fields mapGet_mapDelete_same
          mapGet_mapDelete_other)
qed

theorem deleteUrl_effects_witness:
  "mapGet (urlEntries demoTwo) ''3000'' = None
   \<and> distinct (map fst (urlEntries demoTwo))
   \<and> mapGet (urlEntries demoTwo) ''1000'' = Some demoEntry
   \<and> deleteUrl ''3000'' demoTwo = (False, demoTwo)
   \<and> (\<exists>s'. deleteUrl ''1000'' demoTwo = (True, s')
         \<and> mapGet (urlEntries s') ''1000'' = None \<and> shortCodeToId s' ''abc'' = None
         \<and> saveCalls s' = 1)"
proof -
  have h: "mapGet (urlEntries demoTwo) ''3000'' = None"
    "distinct (map fst (urlEntries demoTwo))"
    "mapGet (urlEntries demoTwo) ''1000'' = Some demoEntry"
    "shortCode demoEntry = ''abc''" "saveCalls demoTwo = 0"
    by (simp_all add: demoTwo_def demoEntry_def)
  from deleteUrl_effects[of demoTwo "''3000''" demoTwo "''1000''" demoEntry] h
  show ?thesis by auto
qed

section \<open>C10: what a failed click changes\<close>



end
